theory Spec2Isabelle
  imports
    Complex_Main
    "HOL-Library.Multiset"
    "HOL-Library.Char_ord"
    "HOL-Library.List_Lexorder"
    "HOL-Library.AList"
    "HOL-Library.Sublist"
begin

section \<open>Order accounting for a small online store: domain model and analysis\<close>

text \<open>
  The development embeds \<^verbatim>\<open>models.py\<close> (classes Client, Product, OrderItem, Order) and
  \<^verbatim>\<open>analysis.py\<close> (class DataAnalyzer). Python objects are mutable and shared by
  reference, so they live in an explicit store: one table per class, indexed by address,
  plus a table of list objects, and an allocation counter. A method takes the store and
  returns the new one. An exception is a value of \<open>error\<close> on the left of a sum.

  Prices and revenues are Python floats. A finite float is modelled by the real number it
  denotes, and the float operations that the code uses are parameters of the model (see
  \<open>float_arith\<close>), so that every result is stated in the code's own arithmetic, whatever its
  rounding. Infinities and NaN are not values of this model. Strings are byte strings,
  ordered lexicographically by character code as Python orders \<^verbatim>\<open>str\<close>.
\<close>

subsection \<open>Errors\<close>

datatype error = ValueError | KeyError | ZeroDivisionError | OverflowError

subsection \<open>Float arithmetic\<close>

text \<open>
  The operations on floats that the code uses: \<^verbatim>\<open>x + y\<close> (\<open>f_add\<close>), \<^verbatim>\<open>x * y\<close> (\<open>f_mul\<close>),
  \<^verbatim>\<open>x / y\<close> for a non-zero divisor (\<open>f_div\<close>) and the built-in \<^verbatim>\<open>sum\<close> of a sequence
  (\<open>f_sum\<close>, whose algorithm depends on the version of the interpreter). Each returns the
  float that the interpreter returns, as a real number; an int operand is given by its
  value. Nothing is assumed of these operations: what is proved holds for binary64 floats
  with their rounding as well as for exact arithmetic. The floats are finite: infinities
  and NaN, which no real number stands for, are not modelled.
\<close>

record float_arith =
  f_add :: "real \<Rightarrow> real \<Rightarrow> real"
  f_mul :: "real \<Rightarrow> real \<Rightarrow> real"
  f_div :: "real \<Rightarrow> real \<Rightarrow> real"
  f_sum :: "real list \<Rightarrow> real"

text \<open>
  Arithmetic without rounding. Binary64 arithmetic agrees with it wherever the operands
  and the exact result are integers below \<open>2^53\<close>, as in the example store below.
\<close>

definition exact_arith :: float_arith where
  "exact_arith = \<lparr>f_add = (+), f_mul = (*), f_div = (/), f_sum = sum_list\<rparr>"

text \<open>
  Converting an int to a float raises OverflowError when the int rounds to a magnitude
  beyond the largest binary64 float, that is, from \<open>2^1024 - 2^970\<close> on. The length of a
  Python list is at most \<^verbatim>\<open>sys.maxsize\<close>.
\<close>

definition float_limit :: real where
  "float_limit = 2 ^ 1024 - 2 ^ 970"

definition sys_maxsize :: nat where
  "sys_maxsize = 2 ^ 63 - 1"

subsection \<open>The store\<close>

type_synonym addr = nat

text \<open>\<^verbatim>\<open>datetime\<close>: the fields of a timestamp.\<close>

record datetime =
  dt_year :: nat
  dt_month :: nat
  dt_day :: nat
  dt_hour :: nat
  dt_minute :: nat
  dt_second :: nat
  dt_microsecond :: nat

text \<open>
  Class Client (with the fields of its base class Person). \<open>c_orders\<close> is the attribute
  \<^verbatim>\<open>_orders\<close>: the address of a list object holding addresses of orders.
\<close>

record client =
  c_name :: string
  c_email :: string
  c_phone :: string
  c_address :: string
  c_orders :: addr
  c_client_id :: int

record product =
  p_name :: string
  p_price :: real
  p_category :: string
  p_description :: string
  p_product_id :: int

record order_item =
  i_product :: addr
  i_quantity :: int

text \<open>Class Order. \<open>o_items\<close> is \<^verbatim>\<open>_items\<close>: the address of a list of order items.\<close>

record order =
  o_client :: addr
  o_order_date :: datetime
  o_items :: addr
  o_order_id :: int
  o_status :: string

record heap =
  h_clients :: "addr \<Rightarrow> client"
  h_products :: "addr \<Rightarrow> product"
  h_order_items :: "addr \<Rightarrow> order_item"
  h_orders :: "addr \<Rightarrow> order"
  h_lists :: "addr \<Rightarrow> addr list"
  h_next :: addr

text \<open>
  The store before anything is allocated. Address 0 is never allocated. Cells at or above
  \<open>h_next\<close> are not objects; what they hold is never read by a program that only follows
  references it was given.
\<close>

definition null_client :: client where
  "null_client =
     \<lparr>c_name = [], c_email = [], c_phone = [], c_address = [], c_orders = 0, c_client_id = 0\<rparr>"

definition null_product :: product where
  "null_product =
     \<lparr>p_name = [], p_price = 0, p_category = [], p_description = [], p_product_id = 0\<rparr>"

definition null_order_item :: order_item where
  "null_order_item = \<lparr>i_product = 0, i_quantity = 0\<rparr>"

definition null_order :: order where
  "null_order =
     \<lparr>o_client = 0,
      o_order_date = \<lparr>dt_year = 0, dt_month = 0, dt_day = 0, dt_hour = 0, dt_minute = 0,
                       dt_second = 0, dt_microsecond = 0\<rparr>,
      o_items = 0, o_order_id = 0, o_status = []\<rparr>"

definition empty_heap :: heap where
  "empty_heap =
     \<lparr>h_clients = (\<lambda>_. null_client), h_products = (\<lambda>_. null_product),
      h_order_items = (\<lambda>_. null_order_item), h_orders = (\<lambda>_. null_order),
      h_lists = (\<lambda>_. []), h_next = 1\<rparr>"

text \<open>
  Any in-place mutation of the list object at address \<open>l\<close> (append, remove, clear, item
  assignment, sort, ...) replaces its contents by some list \<open>xs\<close>.
\<close>

definition list_assign :: "heap \<Rightarrow> addr \<Rightarrow> addr list \<Rightarrow> heap" where
  "list_assign h l xs = h\<lparr>h_lists := (h_lists h)(l := xs)\<rparr>"

subsection \<open>models.py: Client\<close>

text \<open>
  \<^verbatim>\<open>Client.__init__\<close>: Person's constructor stores name, email and phone as given; then
  the address, a new empty list of orders, and \<^verbatim>\<open>id(self)\<close> as the client id.
\<close>

definition Client_init :: "heap \<Rightarrow> string \<Rightarrow> string \<Rightarrow> string \<Rightarrow> string \<Rightarrow> heap \<times> addr" where
  "Client_init h name email phone address =
     (let self = h_next h;
          l = self + 1
      in (h\<lparr>h_clients := (h_clients h)(self :=
               \<lparr>c_name = name, c_email = email, c_phone = phone, c_address = address,
                c_orders = l, c_client_id = int self\<rparr>),
            h_lists := (h_lists h)(l := []),
            h_next := l + 1\<rparr>, self))"

text \<open>The property \<^verbatim>\<open>orders\<close>: \<^verbatim>\<open>return self._orders.copy()\<close>, a new list object.\<close>

definition Client_orders :: "heap \<Rightarrow> addr \<Rightarrow> heap \<times> addr" where
  "Client_orders h self =
     (let l = h_next h
      in (h\<lparr>h_lists := (h_lists h)(l := h_lists h (c_orders (h_clients h self))),
            h_next := l + 1\<rparr>, l))"

text \<open>
  \<^verbatim>\<open>add_order\<close>: \<^verbatim>\<open>if order not in self._orders: self._orders.append(order)\<close>. Class Order
  defines no \<^verbatim>\<open>__eq__\<close>, so membership compares object identity.
\<close>

definition Client_add_order :: "heap \<Rightarrow> addr \<Rightarrow> addr \<Rightarrow> heap" where
  "Client_add_order h self ord =
     (let l = c_orders (h_clients h self)
      in if ord \<notin> set (h_lists h l)
         then h\<lparr>h_lists := (h_lists h)(l := h_lists h l @ [ord])\<rparr>
         else h)"

subsection \<open>models.py: Product\<close>

text \<open>\<^verbatim>\<open>Product.__init__\<close> assigns the private fields directly.\<close>

definition Product_init :: "heap \<Rightarrow> string \<Rightarrow> real \<Rightarrow> string \<Rightarrow> string \<Rightarrow> heap \<times> addr" where
  "Product_init h name price category description =
     (let self = h_next h
      in (h\<lparr>h_products := (h_products h)(self :=
               \<lparr>p_name = name, p_price = price, p_category = category,
                p_description = description, p_product_id = int self\<rparr>),
            h_next := self + 1\<rparr>, self))"

text \<open>The setter of \<^verbatim>\<open>price\<close>: raises ValueError when \<^verbatim>\<open>value < 0\<close>.\<close>

definition Product_set_price :: "heap \<Rightarrow> addr \<Rightarrow> real \<Rightarrow> error + heap" where
  "Product_set_price h self v =
     (if v < 0 then Inl ValueError
      else Inr (h\<lparr>h_products := (h_products h)(self := (h_products h self)\<lparr>p_price := v\<rparr>)\<rparr>))"

subsection \<open>models.py: OrderItem\<close>

text \<open>\<^verbatim>\<open>OrderItem.__init__\<close> assigns \<^verbatim>\<open>_product\<close> and \<^verbatim>\<open>_quantity\<close> directly.\<close>

definition OrderItem_init :: "heap \<Rightarrow> addr \<Rightarrow> int \<Rightarrow> heap \<times> addr" where
  "OrderItem_init h pr quantity =
     (let self = h_next h
      in (h\<lparr>h_order_items := (h_order_items h)(self :=
               \<lparr>i_product = pr, i_quantity = quantity\<rparr>),
            h_next := self + 1\<rparr>, self))"

text \<open>The setter of \<^verbatim>\<open>quantity\<close>: raises ValueError when \<^verbatim>\<open>value < 1\<close>.\<close>

definition OrderItem_set_quantity :: "heap \<Rightarrow> addr \<Rightarrow> int \<Rightarrow> error + heap" where
  "OrderItem_set_quantity h self v =
     (if v < 1 then Inl ValueError
      else Inr (h\<lparr>h_order_items := (h_order_items h)(self :=
                   (h_order_items h self)\<lparr>i_quantity := v\<rparr>)\<rparr>))"

text \<open>
  \<^verbatim>\<open>total_price\<close>: \<^verbatim>\<open>self.product.price * self.quantity\<close>, read live from the product. The
  price is a float and the quantity an int that converts to a float; a quantity beyond the
  float range, for which the product raises OverflowError, is not modelled.
\<close>

definition OrderItem_total_price :: "float_arith \<Rightarrow> heap \<Rightarrow> addr \<Rightarrow> real" where
  "OrderItem_total_price A h self =
     f_mul A (p_price (h_products h (i_product (h_order_items h self))))
       (real_of_int (i_quantity (h_order_items h self)))"

text \<open>The product id of the product an item refers to: \<^verbatim>\<open>item.product.product_id\<close>.\<close>

definition item_product_id :: "heap \<Rightarrow> addr \<Rightarrow> int" where
  "item_product_id h item = p_product_id (h_products h (i_product (h_order_items h item)))"

subsection \<open>models.py: Order\<close>

text \<open>The status literal of a new order (the Russian word for "new", as UTF-8 bytes).\<close>

definition status_new :: string where
  "status_new = map char_of [208, 157, 208, 190, 208, 178, 209, 139, 208, 185 :: nat]"

text \<open>
  \<^verbatim>\<open>Order.__init__(client, order_date=None)\<close>: \<^verbatim>\<open>order_date or datetime.now()\<close> (a datetime
  is always truthy; \<open>now\<close> is the clock reading), a new empty item list, \<^verbatim>\<open>id(self)\<close>, the
  status, and finally \<^verbatim>\<open>client.add_order(self)\<close>.
\<close>

definition Order_init :: "heap \<Rightarrow> addr \<Rightarrow> datetime option \<Rightarrow> datetime \<Rightarrow> heap \<times> addr" where
  "Order_init h cl date_opt now =
     (let self = h_next h;
          l = self + 1;
          h1 = h\<lparr>h_orders := (h_orders h)(self :=
                    \<lparr>o_client = cl,
                     o_order_date = (case date_opt of Some d \<Rightarrow> d | None \<Rightarrow> now),
                     o_items = l, o_order_id = int self, o_status = status_new\<rparr>),
                 h_lists := (h_lists h)(l := []),
                 h_next := l + 1\<rparr>
      in (Client_add_order h1 cl self, self))"

text \<open>The property \<^verbatim>\<open>items\<close>: \<^verbatim>\<open>return self._items.copy()\<close>, a new list object.\<close>

definition Order_items :: "heap \<Rightarrow> addr \<Rightarrow> heap \<times> addr" where
  "Order_items h self =
     (let l = h_next h
      in (h\<lparr>h_lists := (h_lists h)(l := h_lists h (o_items (h_orders h self))),
            h_next := l + 1\<rparr>, l))"

text \<open>\<^verbatim>\<open>total_amount\<close>: \<^verbatim>\<open>sum(item.total_price for item in self._items)\<close>.\<close>

definition Order_total_amount :: "float_arith \<Rightarrow> heap \<Rightarrow> addr \<Rightarrow> real" where
  "Order_total_amount A h self =
     f_sum A (map (OrderItem_total_price A h) (h_lists h (o_items (h_orders h self))))"

text \<open>
  The loop of \<^verbatim>\<open>add_item\<close> over \<^verbatim>\<open>self._items\<close>. At the first item whose product has the
  given product id it runs \<^verbatim>\<open>item.quantity += quantity\<close> (the setter, which may raise) and
  returns; \<open>None\<close> means the loop ended without a match.
\<close>

fun add_item_loop :: "heap \<Rightarrow> addr list \<Rightarrow> addr \<Rightarrow> int \<Rightarrow> (error + heap) option" where
  "add_item_loop h [] pr quantity = None"
| "add_item_loop h (item # items) pr quantity =
     (if item_product_id h item = p_product_id (h_products h pr)
      then Some (OrderItem_set_quantity h item (i_quantity (h_order_items h item) + quantity))
      else add_item_loop h items pr quantity)"

text \<open>\<^verbatim>\<open>add_item\<close>: the loop, and after it \<^verbatim>\<open>self._items.append(OrderItem(product, quantity))\<close>.\<close>

definition Order_add_item :: "heap \<Rightarrow> addr \<Rightarrow> addr \<Rightarrow> int \<Rightarrow> error + heap" where
  "Order_add_item h self pr quantity =
     (case add_item_loop h (h_lists h (o_items (h_orders h self))) pr quantity of
        Some r \<Rightarrow> r
      | None \<Rightarrow>
          (let (h1, item) = OrderItem_init h pr quantity;
               l = o_items (h_orders h1 self)
           in Inr (h1\<lparr>h_lists := (h_lists h1)(l := h_lists h1 l @ [item])\<rparr>)))"

text \<open>
  \<^verbatim>\<open>remove_item\<close>: the list comprehension builds a new list object, and \<^verbatim>\<open>_items\<close> is
  rebound to it.
\<close>

definition Order_remove_item :: "heap \<Rightarrow> addr \<Rightarrow> addr \<Rightarrow> heap" where
  "Order_remove_item h self pr =
     (let l = h_next h;
          kept = filter (\<lambda>item. item_product_id h item \<noteq> p_product_id (h_products h pr))
                   (h_lists h (o_items (h_orders h self)))
      in h\<lparr>h_orders := (h_orders h)(self := (h_orders h self)\<lparr>o_items := l\<rparr>),
           h_lists := (h_lists h)(l := kept),
           h_next := l + 1\<rparr>)"

text \<open>\<^verbatim>\<open>Client.get_total_spent\<close>: \<^verbatim>\<open>sum(order.total_amount for order in self._orders)\<close>.\<close>

definition Client_get_total_spent :: "float_arith \<Rightarrow> heap \<Rightarrow> addr \<Rightarrow> real" where
  "Client_get_total_spent A h self =
     f_sum A (map (Order_total_amount A h) (h_lists h (c_orders (h_clients h self))))"

subsection \<open>analysis.py: the recursive sort of date strings\<close>

text \<open>
  \<^verbatim>\<open>_recursive_date_sort\<close>: lists of length at most one are returned as they are; otherwise
  the pivot is \<^verbatim>\<open>dates[len(dates) // 2]\<close>, and the result is the sorted elements below the
  pivot, the elements equal to it, and the sorted elements above it.
\<close>

function recursive_date_sort :: "string list \<Rightarrow> string list" where
  "recursive_date_sort dates =
     (if length dates \<le> 1 then dates
      else
        let pivot = dates ! (length dates div 2);
            left = filter (\<lambda>x. x < pivot) dates;
            middle = filter (\<lambda>x. x = pivot) dates;
            right = filter (\<lambda>x. x > pivot) dates
        in recursive_date_sort left @ middle @ recursive_date_sort right)"
  by pat_completeness auto
termination
proof (relation "measure length")
  show "wf (measure length)" by simp
next
  fix dates :: "string list" and pivot left middle right
  assume "\<not> length dates \<le> 1" and p: "pivot = dates ! (length dates div 2)"
    and l: "left = filter (\<lambda>x. x < pivot) dates"
  then have "pivot \<in> set dates" by simp
  then have "length left < length dates"
    unfolding l by (rule length_filter_less) simp
  then show "(left, dates) \<in> measure length" by simp
next
  fix dates :: "string list" and pivot left middle right
  assume "\<not> length dates \<le> 1" and p: "pivot = dates ! (length dates div 2)"
    and r: "right = filter (\<lambda>x. x > pivot) dates"
  then have "pivot \<in> set dates" by simp
  then have "length right < length dates"
    unfolding r by (rule length_filter_less) simp
  then show "(right, dates) \<in> measure length" by simp
qed

declare recursive_date_sort.simps [simp del]

subsection \<open>Python built-ins used by the analysis\<close>

text \<open>
  A \<^verbatim>\<open>dict\<close> keeps its keys in insertion order, so it is an association list with distinct
  keys: assigning to a key that is present replaces its value in place, assigning to a new
  key appends it. Reading a key that is absent raises KeyError.
\<close>

type_synonym ('k, 'v) dict = "('k \<times> 'v) list"

definition dict_contains :: "('k, 'v) dict \<Rightarrow> 'k \<Rightarrow> bool" where
  "dict_contains d k = (map_of d k \<noteq> None)"

definition dict_setitem :: "('k, 'v) dict \<Rightarrow> 'k \<Rightarrow> 'v \<Rightarrow> ('k, 'v) dict" where
  "dict_setitem d k v = AList.update k v d"

definition dict_getitem :: "('k, 'v) dict \<Rightarrow> 'k \<Rightarrow> error + 'v" where
  "dict_getitem d k = (case map_of d k of None \<Rightarrow> Inl KeyError | Some v \<Rightarrow> Inr v)"

definition dict_keys :: "('k, 'v) dict \<Rightarrow> 'k list" where
  "dict_keys d = map fst d"

definition dict_values :: "('k, 'v) dict \<Rightarrow> 'v list" where
  "dict_values d = map snd d"

text \<open>
  \<^verbatim>\<open>sorted(xs, key=f, reverse=True)\<close>: the stable sort, descending. CPython reverses the
  list, sorts it stably in ascending order of the key and reverses the result, which keeps
  elements of equal key in their original order.
\<close>

definition sorted_reverse :: "('a \<Rightarrow> 'k::linorder) \<Rightarrow> 'a list \<Rightarrow> 'a list" where
  "sorted_reverse f xs = rev (sort_key f (rev xs))"

text \<open>The slice \<^verbatim>\<open>xs[:n]\<close>; a negative \<open>n\<close> counts from the end of the list.\<close>

definition slice_to :: "'a list \<Rightarrow> int \<Rightarrow> 'a list" where
  "slice_to xs n = (if 0 \<le> n then take (nat n) xs else take (nat (int (length xs) + n)) xs)"

text \<open>
  \<^verbatim>\<open>strftime('%Y-%m-%d')\<close>: the year as four decimal digits, the month and the day as two,
  each padded with zeros.
\<close>

definition digit_char :: "nat \<Rightarrow> char" where
  "digit_char n = ''0123456789'' ! (n mod 10)"

definition strftime_ymd :: "datetime \<Rightarrow> string" where
  "strftime_ymd d =
     [digit_char (dt_year d div 1000), digit_char (dt_year d div 100),
      digit_char (dt_year d div 10), digit_char (dt_year d),
      CHR ''-'',
      digit_char (dt_month d div 10), digit_char (dt_month d),
      CHR ''-'',
      digit_char (dt_day d div 10), digit_char (dt_day d)]"

text \<open>The ranges of a \<^verbatim>\<open>datetime\<close>'s date fields (years 1 to 9999).\<close>

definition date_in_range :: "datetime \<Rightarrow> bool" where
  "date_in_range d =
     (1 \<le> dt_year d \<and> dt_year d \<le> 9999 \<and> 1 \<le> dt_month d \<and> dt_month d \<le> 12
      \<and> 1 \<le> dt_day d \<and> dt_day d \<le> 31)"

subsection \<open>analysis.py: DataAnalyzer\<close>

record DataAnalyzer =
  clients :: "addr list"
  products :: "addr list"
  orders :: "addr list"

text \<open>The records \<^verbatim>\<open>{'client', 'order_count', 'total_spent'}\<close>.\<close>

record client_stat =
  cs_client :: addr
  cs_order_count :: int
  cs_total_spent :: real

text \<open>
  The record built for one client: \<^verbatim>\<open>len(client.orders)\<close> is the length of a copy of the
  client's order list, that is, of the list itself.
\<close>

definition client_stat_of :: "float_arith \<Rightarrow> heap \<Rightarrow> addr \<Rightarrow> client_stat" where
  "client_stat_of A h c =
     \<lparr>cs_client = c,
      cs_order_count = int (length (h_lists h (c_orders (h_clients h c)))),
      cs_total_spent = Client_get_total_spent A h c\<rparr>"

definition get_top_clients_by_orders ::
  "float_arith \<Rightarrow> heap \<Rightarrow> DataAnalyzer \<Rightarrow> int \<Rightarrow> client_stat list" where
  "get_top_clients_by_orders A h self top_n =
     (let client_orders = map (client_stat_of A h) (clients self);
          sorted_clients = sorted_reverse cs_order_count client_orders
      in slice_to sorted_clients top_n)"

text \<open>The records \<^verbatim>\<open>{'product', 'quantity_sold', 'revenue'}\<close>.\<close>

record product_sale =
  ps_product :: addr
  ps_quantity_sold :: int
  ps_revenue :: real

text \<open>
  The inner loop of \<^verbatim>\<open>get_top_products_by_sales\<close> over the items of one order. The inner
  dictionaries are values of the outer one here, so \<^verbatim>\<open>product_sales[product_id][...] += x\<close>
  reads the entry (KeyError if absent) and stores the updated entry under the same key.
\<close>

fun sales_items_loop ::
  "float_arith \<Rightarrow> heap \<Rightarrow> addr list \<Rightarrow> (int, product_sale) dict
     \<Rightarrow> error + (int, product_sale) dict" where
  "sales_items_loop A h [] product_sales = Inr product_sales"
| "sales_items_loop A h (item # items) product_sales =
     (let product_id = item_product_id h item;
          d1 = (if \<not> dict_contains product_sales product_id
                then dict_setitem product_sales product_id
                       \<lparr>ps_product = i_product (h_order_items h item),
                        ps_quantity_sold = 0, ps_revenue = 0\<rparr>
                else product_sales)
      in case dict_getitem d1 product_id of
           Inl e \<Rightarrow> Inl e
         | Inr s \<Rightarrow>
             (let d2 = dict_setitem d1 product_id
                         (s\<lparr>ps_quantity_sold :=
                              ps_quantity_sold s + i_quantity (h_order_items h item)\<rparr>)
              in case dict_getitem d2 product_id of
                   Inl e \<Rightarrow> Inl e
                 | Inr s' \<Rightarrow>
                     sales_items_loop A h items
                       (dict_setitem d2 product_id
                          (s'\<lparr>ps_revenue :=
                               f_add A (ps_revenue s') (OrderItem_total_price A h item)\<rparr>))))"

text \<open>The outer loop over \<^verbatim>\<open>self.orders\<close>; \<^verbatim>\<open>order.items\<close> is a copy of the item list.\<close>

fun sales_orders_loop ::
  "float_arith \<Rightarrow> heap \<Rightarrow> addr list \<Rightarrow> (int, product_sale) dict
     \<Rightarrow> error + (int, product_sale) dict" where
  "sales_orders_loop A h [] product_sales = Inr product_sales"
| "sales_orders_loop A h (ord # ords) product_sales =
     (case sales_items_loop A h (h_lists h (o_items (h_orders h ord))) product_sales of
        Inl e \<Rightarrow> Inl e
      | Inr d \<Rightarrow> sales_orders_loop A h ords d)"

definition get_top_products_by_sales ::
  "float_arith \<Rightarrow> heap \<Rightarrow> DataAnalyzer \<Rightarrow> int \<Rightarrow> error + product_sale list" where
  "get_top_products_by_sales A h self top_n =
     (case sales_orders_loop A h (orders self) [] of
        Inl e \<Rightarrow> Inl e
      | Inr product_sales \<Rightarrow>
          (let sorted_products = sorted_reverse ps_revenue (dict_values product_sales)
           in Inr (slice_to sorted_products top_n)))"

text \<open>The values \<^verbatim>\<open>{'count', 'revenue'}\<close> of \<^verbatim>\<open>orders_by_date\<close>.\<close>

record date_bucket =
  b_count :: int
  b_revenue :: real

text \<open>The grouping loop of \<^verbatim>\<open>get_orders_dynamics\<close> over \<^verbatim>\<open>self.orders\<close>.\<close>

fun orders_by_date_loop ::
  "float_arith \<Rightarrow> heap \<Rightarrow> addr list \<Rightarrow> (string, date_bucket) dict
     \<Rightarrow> error + (string, date_bucket) dict" where
  "orders_by_date_loop A h [] orders_by_date = Inr orders_by_date"
| "orders_by_date_loop A h (ord # ords) orders_by_date =
     (let date_str = strftime_ymd (o_order_date (h_orders h ord));
          d1 = (if \<not> dict_contains orders_by_date date_str
                then dict_setitem orders_by_date date_str \<lparr>b_count = 0, b_revenue = 0\<rparr>
                else orders_by_date)
      in case dict_getitem d1 date_str of
           Inl e \<Rightarrow> Inl e
         | Inr b \<Rightarrow>
             (let d2 = dict_setitem d1 date_str (b\<lparr>b_count := b_count b + 1\<rparr>)
              in case dict_getitem d2 date_str of
                   Inl e \<Rightarrow> Inl e
                 | Inr b' \<Rightarrow>
                     orders_by_date_loop A h ords
                       (dict_setitem d2 date_str
                          (b'\<lparr>b_revenue :=
                               f_add A (b_revenue b') (Order_total_amount A h ord)\<rparr>))))"

text \<open>The returned \<^verbatim>\<open>DataFrame\<close>: three columns of equal length.\<close>

record dynamics =
  df_date :: "string list"
  df_order_count :: "int list"
  df_revenue :: "real list"

text \<open>
  The loop over the sorted dates, appending one entry to each column. The two reads of
  \<^verbatim>\<open>orders_by_date[date]\<close> see the same dictionary and are one read here.
\<close>

fun dynamics_rows_loop ::
  "(string, date_bucket) dict \<Rightarrow> string list \<Rightarrow> dynamics \<Rightarrow> error + dynamics" where
  "dynamics_rows_loop orders_by_date [] acc = Inr acc"
| "dynamics_rows_loop orders_by_date (date # rest) acc =
     (case dict_getitem orders_by_date date of
        Inl e \<Rightarrow> Inl e
      | Inr b \<Rightarrow>
          dynamics_rows_loop orders_by_date rest
            \<lparr>df_date = df_date acc @ [date],
             df_order_count = df_order_count acc @ [b_count b],
             df_revenue = df_revenue acc @ [b_revenue b]\<rparr>)"

definition get_orders_dynamics :: "float_arith \<Rightarrow> heap \<Rightarrow> DataAnalyzer \<Rightarrow> error + dynamics" where
  "get_orders_dynamics A h self =
     (case orders_by_date_loop A h (orders self) [] of
        Inl e \<Rightarrow> Inl e
      | Inr orders_by_date \<Rightarrow>
          (let sorted_dates = recursive_date_sort (dict_keys orders_by_date)
           in dynamics_rows_loop orders_by_date sorted_dates
                \<lparr>df_date = [], df_order_count = [], df_revenue = []\<rparr>))"

text \<open>
  Python's true division \<^verbatim>\<open>a / n\<close> of a float by an int: ZeroDivisionError when the int is
  zero; otherwise the int is converted to a float (OverflowError beyond the float range) and
  the floats are divided. When the dividend is itself an int (the sum of no floats is the
  int 0), Python divides the ints; the result is then the same float, and it raises for no
  divisor that is the length of a list.
\<close>

definition float_truediv_int :: "float_arith \<Rightarrow> real \<Rightarrow> int \<Rightarrow> error + real" where
  "float_truediv_int A a n =
     (if n = 0 then Inl ZeroDivisionError
      else if float_limit \<le> \<bar>real_of_int n\<bar> then Inl OverflowError
      else Inr (f_div A a (real_of_int n)))"

text \<open>
  True division \<^verbatim>\<open>m / n\<close> of two ints: ZeroDivisionError when the divisor is zero,
  OverflowError when the quotient is beyond the float range, otherwise the float of the
  quotient.
\<close>

definition int_truediv_int :: "float_arith \<Rightarrow> int \<Rightarrow> int \<Rightarrow> error + real" where
  "int_truediv_int A m n =
     (if n = 0 then Inl ZeroDivisionError
      else if float_limit \<le> \<bar>real_of_int m / real_of_int n\<bar> then Inl OverflowError
      else Inr (f_div A (real_of_int m) (real_of_int n)))"

text \<open>The report of \<^verbatim>\<open>generate_sales_report\<close>.\<close>

record sales_report =
  total_orders :: int
  total_revenue :: real
  total_clients :: int
  total_products :: int
  avg_order_value :: real
  avg_orders_per_client :: real
  top_clients :: "client_stat list"
  top_products :: "product_sale list"

definition generate_sales_report ::
  "float_arith \<Rightarrow> heap \<Rightarrow> DataAnalyzer \<Rightarrow> error + sales_report" where
  "generate_sales_report A h self =
     (let n_orders = int (length (orders self));
          revenue = f_sum A (map (Order_total_amount A h) (orders self));
          n_clients = int (length (clients self));
          n_products = int (length (products self))
      in case (if n_orders > 0 then float_truediv_int A revenue n_orders else Inr 0) of
           Inl e \<Rightarrow> Inl e
         | Inr avg_value \<Rightarrow>
             (case (if n_clients > 0 then int_truediv_int A n_orders n_clients else Inr 0) of
                Inl e \<Rightarrow> Inl e
              | Inr avg_per_client \<Rightarrow>
                  (case get_top_products_by_sales A h self 5 of
                     Inl e \<Rightarrow> Inl e
                   | Inr tp \<Rightarrow>
                       Inr \<lparr>total_orders = n_orders, total_revenue = revenue,
                            total_clients = n_clients, total_products = n_products,
                            avg_order_value = avg_value,
                            avg_orders_per_client = avg_per_client,
                            top_clients = get_top_clients_by_orders A h self 5,
                            top_products = tp\<rparr>)))"

subsection \<open>Reading the collections, and running sequences of calls\<close>

text \<open>The contents of a client's \<^verbatim>\<open>_orders\<close> and of an order's \<^verbatim>\<open>_items\<close>.\<close>

definition client_order_list :: "heap \<Rightarrow> addr \<Rightarrow> addr list" where
  "client_order_list h c = h_lists h (c_orders (h_clients h c))"

definition order_item_list :: "heap \<Rightarrow> addr \<Rightarrow> addr list" where
  "order_item_list h ord = h_lists h (o_items (h_orders h ord))"

text \<open>A caller's sequence of order constructions and \<^verbatim>\<open>add_order\<close> calls, on any clients.\<close>

datatype client_op = NewOrder addr "datetime option" datetime | AddOrder addr addr

fun run_client_op :: "heap \<Rightarrow> client_op \<Rightarrow> heap" where
  "run_client_op h (NewOrder c d now) = fst (Order_init h c d now)"
| "run_client_op h (AddOrder c ord) = Client_add_order h c ord"

definition run_client_ops :: "heap \<Rightarrow> client_op list \<Rightarrow> heap" where
  "run_client_ops h ops = foldl run_client_op h ops"

text \<open>
  The invariant of an order: no two of its items refer to products with the same product
  id, and its items are allocated objects.
\<close>

definition order_inv :: "heap \<Rightarrow> addr \<Rightarrow> bool" where
  "order_inv h ord =
     (distinct (map (item_product_id h) (order_item_list h ord))
      \<and> list_all (\<lambda>item. item < h_next h) (order_item_list h ord))"

text \<open>
  A caller's sequence of \<^verbatim>\<open>add_item\<close> and \<^verbatim>\<open>remove_item\<close> calls on one order. A call that
  raises leaves the store as it was (the setter raises before it assigns), and the caller
  goes on.
\<close>

datatype order_op = AddItem addr int | RemoveItem addr

fun run_order_op :: "addr \<Rightarrow> heap \<Rightarrow> order_op \<Rightarrow> heap" where
  "run_order_op ord h (AddItem pr quantity) =
     (case Order_add_item h ord pr quantity of Inl e \<Rightarrow> h | Inr h' \<Rightarrow> h')"
| "run_order_op ord h (RemoveItem pr) = Order_remove_item h ord pr"

definition run_order_ops :: "heap \<Rightarrow> addr \<Rightarrow> order_op list \<Rightarrow> heap" where
  "run_order_ops h ord ops = foldl (run_order_op ord) h ops"

subsection \<open>Grouping, stated without the loops\<close>

text \<open>
  One step of a grouping loop as a function: the entry of the element's key is created from
  \<open>init\<close> when the key is new, then updated by \<open>upd\<close>. The loops of
  \<^verbatim>\<open>get_top_products_by_sales\<close> and \<^verbatim>\<open>get_orders_dynamics\<close> are shown below to compute folds
  of this step.
\<close>

definition group_step ::
  "('a \<Rightarrow> 'k) \<Rightarrow> ('a \<Rightarrow> 'v) \<Rightarrow> ('v \<Rightarrow> 'a \<Rightarrow> 'v) \<Rightarrow> ('k, 'v) dict \<Rightarrow> 'a \<Rightarrow> ('k, 'v) dict" where
  "group_step key init upd d x =
     AList.update (key x) (upd (case map_of d (key x) of None \<Rightarrow> init x | Some v \<Rightarrow> v) x) d"

definition sale_init :: "heap \<Rightarrow> addr \<Rightarrow> product_sale" where
  "sale_init h item =
     \<lparr>ps_product = i_product (h_order_items h item), ps_quantity_sold = 0, ps_revenue = 0\<rparr>"

definition sale_add :: "float_arith \<Rightarrow> heap \<Rightarrow> product_sale \<Rightarrow> addr \<Rightarrow> product_sale" where
  "sale_add A h s item =
     s\<lparr>ps_quantity_sold := ps_quantity_sold s + i_quantity (h_order_items h item),
       ps_revenue := f_add A (ps_revenue s) (OrderItem_total_price A h item)\<rparr>"

text \<open>All items of the given orders, in the order the loops visit them.\<close>

definition all_items :: "heap \<Rightarrow> addr list \<Rightarrow> addr list" where
  "all_items h ords = concat (map (order_item_list h) ords)"



text \<open>The date string of an order, and the orders of a list with a given date string.\<close>

definition order_date_str :: "heap \<Rightarrow> addr \<Rightarrow> string" where
  "order_date_str h ord = strftime_ymd (o_order_date (h_orders h ord))"

definition orders_on :: "heap \<Rightarrow> addr list \<Rightarrow> string \<Rightarrow> addr list" where
  "orders_on h ords d = filter (\<lambda>ord. order_date_str h ord = d) ords"

text \<open>Two timestamps fall on the same calendar date.\<close>

definition same_calendar_date :: "datetime \<Rightarrow> datetime \<Rightarrow> bool" where
  "same_calendar_date a b =
     (dt_year a = dt_year b \<and> dt_month a = dt_month b \<and> dt_day a = dt_day b)"

definition bucket_init :: "addr \<Rightarrow> date_bucket" where
  "bucket_init ord = \<lparr>b_count = 0, b_revenue = 0\<rparr>"

definition bucket_add :: "float_arith \<Rightarrow> heap \<Rightarrow> date_bucket \<Rightarrow> addr \<Rightarrow> date_bucket" where
  "bucket_add A h b ord =
     b\<lparr>b_count := b_count b + 1,
       b_revenue := f_add A (b_revenue b) (Order_total_amount A h ord)\<rparr>"

subsection \<open>A store to evaluate on\<close>

text \<open>
  Three clients A, B and C (addresses 1, 3 and 5), three products P, Q and R (addresses 7,
  8 and 9, at prices 100, 350 and 2500), and three orders: A's order 10 of 3 January 2023
  with one P; A's order 13 of 1 January with two P and one Q; B's order 17 of 2 January
  with one R. C has no order.
\<close>

definition example_date :: "nat \<Rightarrow> datetime" where
  "example_date d =
     \<lparr>dt_year = 2023, dt_month = 1, dt_day = d, dt_hour = 12, dt_minute = 30,
      dt_second = 0, dt_microsecond = 0\<rparr>"

definition example_clients :: heap where
  "example_clients =
     (let (h, a) = Client_init empty_heap ''A'' ''a@example.com'' ''+71111111111'' [];
          (h, b) = Client_init h ''B'' ''b@example.com'' ''+72222222222'' [];
          (h, c) = Client_init h ''C'' ''c@example.com'' ''+73333333333'' []
      in h)"

definition example_products :: heap where
  "example_products =
     (let (h, p) = Product_init example_clients ''P'' 100 [] [];
          (h, q) = Product_init h ''Q'' 350 [] [];
          (h, r) = Product_init h ''R'' 2500 [] []
      in h)"

definition example_order1 :: heap where
  "example_order1 =
     (let (h, o1) = Order_init example_products 1 (Some (example_date 3)) (example_date 9)
      in run_order_ops h o1 [AddItem 7 1])"

definition example_order2 :: heap where
  "example_order2 =
     (let (h, o2) = Order_init example_order1 1 (Some (example_date 1)) (example_date 9)
      in run_order_ops h o2 [AddItem 7 2, AddItem 8 1])"

definition example_store :: heap where
  "example_store =
     (let (h, o3) = Order_init example_order2 3 (Some (example_date 2)) (example_date 9)
      in run_order_ops h o3 [AddItem 9 1])"

text \<open>The tables of clients and products that these calls build.\<close>

definition example_client_table :: "addr \<Rightarrow> client" where
  "example_client_table =
     (\<lambda>_. null_client)
       (1 := \<lparr>c_name = ''A'', c_email = ''a@example.com'', c_phone = ''+71111111111'',
               c_address = [], c_orders = 2, c_client_id = 1\<rparr>,
        3 := \<lparr>c_name = ''B'', c_email = ''b@example.com'', c_phone = ''+72222222222'',
               c_address = [], c_orders = 4, c_client_id = 3\<rparr>,
        5 := \<lparr>c_name = ''C'', c_email = ''c@example.com'', c_phone = ''+73333333333'',
               c_address = [], c_orders = 6, c_client_id = 5\<rparr>)"

definition example_product_table :: "addr \<Rightarrow> product" where
  "example_product_table =
     (\<lambda>_. null_product)
       (7 := \<lparr>p_name = ''P'', p_price = 100, p_category = [], p_description = [],
               p_product_id = 7\<rparr>,
        8 := \<lparr>p_name = ''Q'', p_price = 350, p_category = [], p_description = [],
               p_product_id = 8\<rparr>,
        9 := \<lparr>p_name = ''R'', p_price = 2500, p_category = [], p_description = [],
               p_product_id = 9\<rparr>)"

definition example_analyzer :: DataAnalyzer where
  "example_analyzer = \<lparr>clients = [1, 3, 5], products = [7, 8, 9], orders = [10, 13, 17]\<rparr>"

text \<open>The analyzer of no clients, no products and no orders.\<close>

definition empty_analyzer :: DataAnalyzer where
  "empty_analyzer = \<lparr>clients = [], products = [], orders = []\<rparr>"

subsection \<open>Programs over the classes of models.py\<close>

text \<open>
  A call that a program can make on the classes of models.py: the constructors, the two
  list accessors, every method and setter that writes to an object, and an in-place
  mutation of a list that the program holds. The remaining properties and methods
  (\<^verbatim>\<open>total_price\<close>, \<^verbatim>\<open>total_amount\<close>, \<^verbatim>\<open>get_total_spent\<close>, \<^verbatim>\<open>to_dict\<close>, \<^verbatim>\<open>__str__\<close> and the getters of the
  fields) only read.
\<close>

datatype call =
    Call_Client_init string string string string
  | Call_Client_orders addr
  | Call_Client_add_order addr addr
  | Call_Product_init string real string string
  | Call_Product_set_price addr real
  | Call_OrderItem_init addr int
  | Call_OrderItem_set_quantity addr int
  | Call_Order_init addr "datetime option" datetime
  | Call_Order_items addr
  | Call_Order_add_item addr addr int
  | Call_Order_remove_item addr addr
  | Call_list_assign addr "addr list"
  | Call_Client_set_name addr string
  | Call_Client_set_email addr string
  | Call_Client_set_phone addr string
  | Call_Client_set_address addr string
  | Call_Product_set_name addr string
  | Call_Product_set_category addr string
  | Call_Product_set_description addr string
  | Call_Order_set_status addr string

text \<open>
  The state of a program: the store, the clients and orders constructed so far, and the
  lists that the program holds, which are the lists that the accessors returned to it.
\<close>

record world =
  w_heap :: heap
  w_clients :: "addr list"
  w_orders :: "addr list"
  w_lists :: "addr list"

definition empty_world :: world where
  "empty_world = \<lparr>w_heap = empty_heap, w_clients = [], w_orders = [], w_lists = []\<rparr>"

text \<open>
  One call. A call on a client or on an order runs when that object was constructed, and a
  list is mutated when the program holds it; products and order items are not tracked, and
  a call on an address that holds none writes to the table of products or of order items
  only. A call that raises leaves the store as it was. The setters of a name, an email and
  a phone validate the text and then raise or assign it; the validation is not modelled and
  the call assigns, so that a program here reaches every store that it reaches in the
  source (there, a setter that raises has changed nothing).
\<close>

fun run_call :: "world \<Rightarrow> call \<Rightarrow> world" where
  "run_call w (Call_Client_init name email phone address) =
     (let (h', c) = Client_init (w_heap w) name email phone address
      in w\<lparr>w_heap := h', w_clients := c # w_clients w\<rparr>)"
| "run_call w (Call_Client_orders c) =
     (if c \<in> set (w_clients w)
      then let (h', l) = Client_orders (w_heap w) c
           in w\<lparr>w_heap := h', w_lists := l # w_lists w\<rparr>
      else w)"
| "run_call w (Call_Client_add_order c ord) =
     (if c \<in> set (w_clients w)
      then w\<lparr>w_heap := Client_add_order (w_heap w) c ord\<rparr>
      else w)"
| "run_call w (Call_Product_init name price category description) =
     w\<lparr>w_heap := fst (Product_init (w_heap w) name price category description)\<rparr>"
| "run_call w (Call_Product_set_price p v) =
     (case Product_set_price (w_heap w) p v of
        Inl e \<Rightarrow> w
      | Inr h' \<Rightarrow> w\<lparr>w_heap := h'\<rparr>)"
| "run_call w (Call_OrderItem_init p quantity) =
     w\<lparr>w_heap := fst (OrderItem_init (w_heap w) p quantity)\<rparr>"
| "run_call w (Call_OrderItem_set_quantity item v) =
     (case OrderItem_set_quantity (w_heap w) item v of
        Inl e \<Rightarrow> w
      | Inr h' \<Rightarrow> w\<lparr>w_heap := h'\<rparr>)"
| "run_call w (Call_Order_init c d now) =
     (if c \<in> set (w_clients w)
      then let (h', ord) = Order_init (w_heap w) c d now
           in w\<lparr>w_heap := h', w_orders := ord # w_orders w\<rparr>
      else w)"
| "run_call w (Call_Order_items ord) =
     (if ord \<in> set (w_orders w)
      then let (h', l) = Order_items (w_heap w) ord
           in w\<lparr>w_heap := h', w_lists := l # w_lists w\<rparr>
      else w)"
| "run_call w (Call_Order_add_item ord p quantity) =
     (if ord \<in> set (w_orders w)
      then (case Order_add_item (w_heap w) ord p quantity of
              Inl e \<Rightarrow> w
            | Inr h' \<Rightarrow> w\<lparr>w_heap := h'\<rparr>)
      else w)"
| "run_call w (Call_Order_remove_item ord p) =
     (if ord \<in> set (w_orders w)
      then w\<lparr>w_heap := Order_remove_item (w_heap w) ord p\<rparr>
      else w)"
| "run_call w (Call_list_assign l xs) =
     (if l \<in> set (w_lists w) then w\<lparr>w_heap := list_assign (w_heap w) l xs\<rparr> else w)"
| "run_call w (Call_Client_set_name c v) =
     (let h = w_heap w
      in if c \<in> set (w_clients w)
         then w\<lparr>w_heap := h\<lparr>h_clients := (h_clients h)(c := (h_clients h c)\<lparr>c_name := v\<rparr>)\<rparr>\<rparr>
         else w)"
| "run_call w (Call_Client_set_email c v) =
     (let h = w_heap w
      in if c \<in> set (w_clients w)
         then w\<lparr>w_heap := h\<lparr>h_clients := (h_clients h)(c := (h_clients h c)\<lparr>c_email := v\<rparr>)\<rparr>\<rparr>
         else w)"
| "run_call w (Call_Client_set_phone c v) =
     (let h = w_heap w
      in if c \<in> set (w_clients w)
         then w\<lparr>w_heap := h\<lparr>h_clients := (h_clients h)(c := (h_clients h c)\<lparr>c_phone := v\<rparr>)\<rparr>\<rparr>
         else w)"
| "run_call w (Call_Client_set_address c v) =
     (let h = w_heap w
      in if c \<in> set (w_clients w)
         then w\<lparr>w_heap := h\<lparr>h_clients := (h_clients h)(c := (h_clients h c)\<lparr>c_address := v\<rparr>)\<rparr>\<rparr>
         else w)"
| "run_call w (Call_Product_set_name p v) =
     (let h = w_heap w
      in w\<lparr>w_heap := h\<lparr>h_products := (h_products h)(p := (h_products h p)\<lparr>p_name := v\<rparr>)\<rparr>\<rparr>)"
| "run_call w (Call_Product_set_category p v) =
     (let h = w_heap w
      in w\<lparr>w_heap := h\<lparr>h_products := (h_products h)(p := (h_products h p)\<lparr>p_category := v\<rparr>)\<rparr>\<rparr>)"
| "run_call w (Call_Product_set_description p v) =
     (let h = w_heap w
      in w\<lparr>w_heap :=
             h\<lparr>h_products := (h_products h)(p := (h_products h p)\<lparr>p_description := v\<rparr>)\<rparr>\<rparr>)"
| "run_call w (Call_Order_set_status ord v) =
     (let h = w_heap w
      in if ord \<in> set (w_orders w)
         then w\<lparr>w_heap := h\<lparr>h_orders := (h_orders h)(ord := (h_orders h ord)\<lparr>o_status := v\<rparr>)\<rparr>\<rparr>
         else w)"

definition run_calls :: "world \<Rightarrow> call list \<Rightarrow> world" where
  "run_calls w calls = foldl run_call w calls"

text \<open>The calls that run \<^verbatim>\<open>add_order\<close> on a client: the method and the constructor of Order.\<close>

fun adds_order_to :: "addr \<Rightarrow> call \<Rightarrow> bool" where
  "adds_order_to c (Call_Client_add_order c' ord) = (c' = c)"
| "adds_order_to c (Call_Order_init c' d now) = (c' = c)"
| "adds_order_to c other = False"

text \<open>The calls of \<^verbatim>\<open>add_item\<close> and \<^verbatim>\<open>remove_item\<close> on an order.\<close>

fun changes_items_of :: "addr \<Rightarrow> call \<Rightarrow> bool" where
  "changes_items_of ord (Call_Order_add_item ord' p quantity) = (ord' = ord)"
| "changes_items_of ord (Call_Order_remove_item ord' p) = (ord' = ord)"
| "changes_items_of ord other = False"

text \<open>
  What holds of the stored lists in every state that a program reaches: they are allocated
  list objects, different objects have different lists, and no stored list is a list that
  the program holds.
\<close>

definition world_inv :: "world \<Rightarrow> bool" where
  "world_inv w =
     (let h = w_heap w; n = h_next h
      in (\<forall>c \<in> set (w_clients w). c < n \<and> c_orders (h_clients h c) < n)
         \<and> (\<forall>ord \<in> set (w_orders w). ord < n \<and> o_items (h_orders h ord) < n)
         \<and> (\<forall>l \<in> set (w_lists w). l < n)
         \<and> (\<forall>c \<in> set (w_clients w). \<forall>c' \<in> set (w_clients w).
               c_orders (h_clients h c) = c_orders (h_clients h c') \<longrightarrow> c = c')
         \<and> (\<forall>ord \<in> set (w_orders w). \<forall>ord' \<in> set (w_orders w).
               o_items (h_orders h ord) = o_items (h_orders h ord') \<longrightarrow> ord = ord')
         \<and> (\<forall>c \<in> set (w_clients w). \<forall>ord \<in> set (w_orders w).
               c_orders (h_clients h c) \<noteq> o_items (h_orders h ord))
         \<and> (\<forall>c \<in> set (w_clients w). c_orders (h_clients h c) \<notin> set (w_lists w))
         \<and> (\<forall>ord \<in> set (w_orders w). o_items (h_orders h ord) \<notin> set (w_lists w)))"

text \<open>
  A program to evaluate on: it constructs a client and an order of that client, and reads
  the client's orders. The client is at address 1 with its list of orders at 2, the order at
  3 with its list of items at 4, and the list that the accessor returns at 5.
\<close>

definition example_program :: "call list" where
  "example_program =
     [Call_Client_init ''A'' ''a@example.com'' ''+79001234567'' '''',
      Call_Order_init 1 None (example_date 1),
      Call_Client_orders 1]"

section \<open>The example store, evaluated\<close>

text \<open>
  The stores that the calls build, stage by stage, as explicit tables. Evaluation keeps
  addresses as numerals.
\<close>

lemmas model_defs = Client_init_def Product_init_def Order_init_def OrderItem_init_def
  Client_add_order_def Order_add_item_def Order_remove_item_def OrderItem_set_quantity_def
  item_product_id_def run_order_ops_def Let_def

lemma example_clients_eq:
  "example_clients =
     \<lparr>h_clients = example_client_table,
      h_products = \<lambda>_. null_product,
      h_order_items = \<lambda>_. null_order_item,
      h_orders = \<lambda>_. null_order,
      h_lists = (\<lambda>_. [])(2 := [], 4 := [], 6 := []),
      h_next = 7\<rparr>"
  by (simp add: example_clients_def empty_heap_def example_client_table_def model_defs
      del: One_nat_def)

lemma example_products_eq:
  "example_products =
     \<lparr>h_clients = example_client_table,
      h_products = example_product_table,
      h_order_items = \<lambda>_. null_order_item,
      h_orders = \<lambda>_. null_order,
      h_lists = (\<lambda>_. [])(2 := [], 4 := [], 6 := []),
      h_next = 10\<rparr>"
  by (simp add: example_products_def example_clients_eq example_product_table_def model_defs
      del: One_nat_def)

lemma example_order1_eq:
  "example_order1 =
     \<lparr>h_clients = example_client_table,
      h_products = example_product_table,
      h_order_items = (\<lambda>_. null_order_item)(12 := \<lparr>i_product = 7, i_quantity = 1\<rparr>),
      h_orders = (\<lambda>_. null_order)
        (10 := \<lparr>o_client = 1, o_order_date = example_date 3, o_items = 11,
                 o_order_id = 10, o_status = status_new\<rparr>),
      h_lists = (\<lambda>_. [])(4 := [], 6 := [], 2 := [10], 11 := [12]),
      h_next = 13\<rparr>"
  by (simp add: example_order1_def example_products_eq example_client_table_def
      example_product_table_def model_defs del: One_nat_def)

lemma example_order2_eq:
  "example_order2 =
     \<lparr>h_clients = example_client_table,
      h_products = example_product_table,
      h_order_items = (\<lambda>_. null_order_item)
        (12 := \<lparr>i_product = 7, i_quantity = 1\<rparr>,
         15 := \<lparr>i_product = 7, i_quantity = 2\<rparr>,
         16 := \<lparr>i_product = 8, i_quantity = 1\<rparr>),
      h_orders = (\<lambda>_. null_order)
        (10 := \<lparr>o_client = 1, o_order_date = example_date 3, o_items = 11,
                 o_order_id = 10, o_status = status_new\<rparr>,
         13 := \<lparr>o_client = 1, o_order_date = example_date 1, o_items = 14,
                 o_order_id = 13, o_status = status_new\<rparr>),
      h_lists = (\<lambda>_. [])(4 := [], 6 := [], 11 := [12], 2 := [10, 13], 14 := [15, 16]),
      h_next = 17\<rparr>"
  by (simp add: example_order2_def example_order1_eq example_client_table_def
      example_product_table_def model_defs del: One_nat_def)

lemma example_store_eq:
  "example_store =
     \<lparr>h_clients = example_client_table,
      h_products = example_product_table,
      h_order_items = (\<lambda>_. null_order_item)
        (12 := \<lparr>i_product = 7, i_quantity = 1\<rparr>,
         15 := \<lparr>i_product = 7, i_quantity = 2\<rparr>,
         16 := \<lparr>i_product = 8, i_quantity = 1\<rparr>,
         19 := \<lparr>i_product = 9, i_quantity = 1\<rparr>),
      h_orders = (\<lambda>_. null_order)
        (10 := \<lparr>o_client = 1, o_order_date = example_date 3, o_items = 11,
                 o_order_id = 10, o_status = status_new\<rparr>,
         13 := \<lparr>o_client = 1, o_order_date = example_date 1, o_items = 14,
                 o_order_id = 13, o_status = status_new\<rparr>,
         17 := \<lparr>o_client = 3, o_order_date = example_date 2, o_items = 18,
                 o_order_id = 17, o_status = status_new\<rparr>),
      h_lists = (\<lambda>_. [])
        (6 := [], 11 := [12], 2 := [10, 13], 14 := [15, 16], 4 := [17], 18 := [19]),
      h_next = 20\<rparr>"
  by (simp add: example_store_def example_order2_eq example_client_table_def
      example_product_table_def model_defs del: One_nat_def)

section \<open>Readings of the example store\<close>

lemma example_client_order_lists:
  "client_order_list example_store 1 = [10, 13]"
  "client_order_list example_store 3 = [17]"
  "client_order_list example_store 5 = []"
  by (simp_all add: client_order_list_def example_store_eq example_client_table_def
      del: One_nat_def)

lemma example_order_item_lists:
  "order_item_list example_store 10 = [12]"
  "order_item_list example_store 13 = [15, 16]"
  "order_item_list example_store 17 = [19]"
  by (simp_all add: order_item_list_def example_store_eq del: One_nat_def)




lemma example_item_total_prices:
  "OrderItem_total_price exact_arith example_store 12 = 100"
  "OrderItem_total_price exact_arith example_store 15 = 200"
  "OrderItem_total_price exact_arith example_store 16 = 350"
  "OrderItem_total_price exact_arith example_store 19 = 2500"
  by (simp_all add: OrderItem_total_price_def exact_arith_def example_store_eq
      example_product_table_def del: One_nat_def)

lemma example_order_totals:
  "Order_total_amount exact_arith example_store 10 = 100"
  "Order_total_amount exact_arith example_store 13 = 550"
  "Order_total_amount exact_arith example_store 17 = 2500"
  using example_order_item_lists
  by (simp_all add: Order_total_amount_def order_item_list_def example_item_total_prices)
    (simp_all add: exact_arith_def)

lemma example_order_dates:
  "o_order_date (h_orders example_store 10) = example_date 3"
  "o_order_date (h_orders example_store 13) = example_date 1"
  "o_order_date (h_orders example_store 17) = example_date 2"
  by (simp_all add: example_store_eq del: One_nat_def)

lemma example_client_stats:
  "client_stat_of exact_arith example_store 1
     = \<lparr>cs_client = 1, cs_order_count = 2, cs_total_spent = 650\<rparr>"
  "client_stat_of exact_arith example_store 3
     = \<lparr>cs_client = 3, cs_order_count = 1, cs_total_spent = 2500\<rparr>"
  "client_stat_of exact_arith example_store 5
     = \<lparr>cs_client = 5, cs_order_count = 0, cs_total_spent = 0\<rparr>"
  using example_client_order_lists
  by (simp_all add: client_stat_of_def Client_get_total_spent_def client_order_list_def
      example_order_totals)
    (simp_all add: exact_arith_def)

section \<open>The recursive date sort is a sort\<close>

lemma three_way_partition_mset:
  fixes p :: "'a::linorder"
  shows "mset (filter (\<lambda>x. x < p) xs) + mset (filter (\<lambda>x. x = p) xs)
           + mset (filter (\<lambda>x. x > p) xs) = mset xs"
  by (induction xs) auto

lemma recursive_date_sort_unfold:
  assumes "\<not> length dates \<le> 1"
  shows "recursive_date_sort dates =
           recursive_date_sort (filter (\<lambda>x. x < dates ! (length dates div 2)) dates)
             @ filter (\<lambda>x. x = dates ! (length dates div 2)) dates
             @ recursive_date_sort (filter (\<lambda>x. x > dates ! (length dates div 2)) dates)"
  using assms by (subst recursive_date_sort.simps) (simp add: Let_def)

lemma recursive_date_sort_mset: "mset (recursive_date_sort dates) = mset dates"
proof (induction dates rule: recursive_date_sort.induct)
  case (1 dates)
  show ?case
  proof (cases "length dates \<le> 1")
    case True
    then show ?thesis by (simp add: recursive_date_sort.simps)
  next
    case False
    define pivot where "pivot = dates ! (length dates div 2)"
    have l: "mset (recursive_date_sort (filter (\<lambda>x. x < pivot) dates))
               = mset (filter (\<lambda>x. x < pivot) dates)"
      using "1.IH"(1) [OF False pivot_def refl refl refl] .
    have r: "mset (recursive_date_sort (filter (\<lambda>x. x > pivot) dates))
               = mset (filter (\<lambda>x. x > pivot) dates)"
      using "1.IH"(2) [OF False pivot_def refl refl refl] .
    show ?thesis
      using l r three_way_partition_mset [of pivot dates]
      unfolding recursive_date_sort_unfold [OF False] pivot_def
      by (simp add: add.assoc)
  qed
qed

lemma recursive_date_sort_set: "set (recursive_date_sort dates) = set dates"
  using recursive_date_sort_mset [of dates] by (metis set_mset_mset)

lemma recursive_date_sort_sorted: "sorted (recursive_date_sort dates)"
proof (induction dates rule: recursive_date_sort.induct)
  case (1 dates)
  show ?case
  proof (cases "length dates \<le> 1")
    case True
    then have "dates = [] \<or> (\<exists>x. dates = [x])"
      by (cases dates) auto
    with True show ?thesis by (auto simp add: recursive_date_sort.simps)
  next
    case False
    define pivot where "pivot = dates ! (length dates div 2)"
    have l: "sorted (recursive_date_sort (filter (\<lambda>x. x < pivot) dates))"
      using "1.IH"(1) [OF False pivot_def refl refl refl] .
    have r: "sorted (recursive_date_sort (filter (\<lambda>x. x > pivot) dates))"
      using "1.IH"(2) [OF False pivot_def refl refl refl] .
    have m: "sorted (filter (\<lambda>x. x = pivot) dates)"
      by (induction dates) auto
    show ?thesis
      using l r m
      unfolding recursive_date_sort_unfold [OF False] pivot_def [symmetric]
      by (auto simp add: sorted_append recursive_date_sort_set less_imp_le)
  qed
qed

text \<open>
  Claim C4. For every list of date strings the recursive sort returns (the function is
  total: its recursion on the strict partitions around the middle element terminates), and
  what it returns is the list that the reference ascending sort under lexicographic string
  comparison returns: a sorted permutation of the input.
\<close>

theorem recursive_date_sort_refines_sort:
  "recursive_date_sort dates = sort dates
   \<and> sorted (recursive_date_sort dates)
   \<and> mset (recursive_date_sort dates) = mset dates"
  using properties_for_sort [OF recursive_date_sort_mset recursive_date_sort_sorted]
    recursive_date_sort_mset recursive_date_sort_sorted by simp

section \<open>Validation in the constructors and setters\<close>

text \<open>
  Claim C2. The constructor of OrderItem stores the quantity it is given without checking
  it: constructing an item with quantity 0 returns an item whose quantity is 0, where the
  claim (and the repository's test \<^verbatim>\<open>test_quantity_validation\<close>) expects a ValueError. Only
  the setter checks: assigning 0 raises, assigning 1 is accepted.
\<close>

theorem OrderItem_init_accepts_zero_quantity:
  "(case OrderItem_init h pr 0 of (h', item) \<Rightarrow>
      i_quantity (h_order_items h' item) = 0 \<and> i_product (h_order_items h' item) = pr)
   \<and> OrderItem_set_quantity h item 0 = Inl ValueError
   \<and> OrderItem_set_quantity h item 1
       = Inr (h\<lparr>h_order_items := (h_order_items h)(item :=
                  (h_order_items h item)\<lparr>i_quantity := 1\<rparr>)\<rparr>)"
  by (simp add: OrderItem_init_def OrderItem_set_quantity_def Let_def)

text \<open>
  Claim C3. The constructor of Product stores the price it is given without checking it:
  constructing a product with price -0.01 returns a product whose price is -0.01, where
  the claim (and the repository's test \<^verbatim>\<open>test_product_price_validation\<close>) expects a
  ValueError. Only the setter checks: assigning -0.01 raises, assigning 0 is accepted.
\<close>

theorem Product_init_accepts_negative_price:
  "(case Product_init h name (- 1 / 100) category description of (h', p) \<Rightarrow>
      p_price (h_products h' p) = - 1 / 100)
   \<and> Product_set_price h p (- 1 / 100) = Inl ValueError
   \<and> Product_set_price h p 0
       = Inr (h\<lparr>h_products := (h_products h)(p := (h_products h p)\<lparr>p_price := 0\<rparr>)\<rparr>)"
  by (simp add: Product_init_def Product_set_price_def Let_def)

section \<open>The accessors return copies, and what changes a stored list\<close>

lemma add_item_loop_result:
  "add_item_loop h items pr q = Some r
     \<Longrightarrow> \<exists>item v. r = OrderItem_set_quantity h item v"
  by (induction items) (auto split: if_splits)

lemma Order_add_item_frame:
  assumes "Order_add_item h ord pr q = Inr h'"
  shows "h_clients h' = h_clients h" and "h_orders h' = h_orders h"
    and "h_next h \<le> h_next h'"
    and "l \<noteq> o_items (h_orders h ord) \<Longrightarrow> h_lists h' l = h_lists h l"
proof -
  have "h_clients h' = h_clients h \<and> h_orders h' = h_orders h \<and> h_next h \<le> h_next h'
      \<and> (l \<noteq> o_items (h_orders h ord) \<longrightarrow> h_lists h' l = h_lists h l)"
  proof (cases "add_item_loop h (h_lists h (o_items (h_orders h ord))) pr q")
    case None
    with assms show ?thesis
      by (auto simp add: Order_add_item_def OrderItem_init_def Let_def)
  next
    case (Some r)
    then obtain item v where "r = OrderItem_set_quantity h item v"
      using add_item_loop_result by blast
    with Some assms have "OrderItem_set_quantity h item v = Inr h'"
      by (simp add: Order_add_item_def)
    then show ?thesis
      by (auto simp add: OrderItem_set_quantity_def split: if_splits)
  qed
  then show "h_clients h' = h_clients h" and "h_orders h' = h_orders h"
    and "h_next h \<le> h_next h'"
    and "l \<noteq> o_items (h_orders h ord) \<Longrightarrow> h_lists h' l = h_lists h l"
    by simp_all
qed

lemma world_inv_empty: "world_inv empty_world"
  by (simp add: world_inv_def empty_world_def)

lemma world_inv_same_lists:
  assumes "world_inv w"
    and "w_clients w' = w_clients w" and "w_orders w' = w_orders w"
    and "w_lists w' = w_lists w"
    and "h_next (w_heap w) \<le> h_next (w_heap w')"
    and "\<And>c. c_orders (h_clients (w_heap w') c) = c_orders (h_clients (w_heap w) c)"
    and "\<And>ord. o_items (h_orders (w_heap w') ord) = o_items (h_orders (w_heap w) ord)"
  shows "world_inv w'"
proof -
  have lt: "\<And>x. x < h_next (w_heap w) \<Longrightarrow> x < h_next (w_heap w')"
    using assms(5) by simp
  show ?thesis
    using assms(1) lt
    unfolding world_inv_def Let_def assms(2,3,4,6,7)
    by blast
qed

lemma world_inv_run_call:
  assumes "world_inv w"
  shows "world_inv (run_call w call)"
proof (cases call)
  case (Call_Client_init name email phone address)
  with assms show ?thesis
    by (auto simp add: world_inv_def Client_init_def Let_def)
next
  case (Call_Client_orders c)
  with assms show ?thesis
    by (auto simp add: world_inv_def Client_orders_def Let_def)
next
  case (Call_Client_add_order c ord)
  with assms show ?thesis
    by (auto simp add: world_inv_def Client_add_order_def Let_def)
next
  case (Call_Product_init name price category description)
  with assms show ?thesis
    by (auto simp add: world_inv_def Product_init_def Let_def)
next
  case (Call_Product_set_price p v)
  with assms show ?thesis
    by (auto simp add: world_inv_def Product_set_price_def Let_def)
next
  case (Call_OrderItem_init p quantity)
  with assms show ?thesis
    by (auto simp add: world_inv_def OrderItem_init_def Let_def)
next
  case (Call_OrderItem_set_quantity item v)
  with assms show ?thesis
    by (auto simp add: world_inv_def OrderItem_set_quantity_def Let_def)
next
  case (Call_Order_init c d now)
  with assms show ?thesis
    by (auto simp add: world_inv_def Order_init_def Client_add_order_def Let_def)
next
  case (Call_Order_items ord)
  with assms show ?thesis
    by (auto simp add: world_inv_def Order_items_def Let_def)
next
  case (Call_Order_add_item ord p quantity)
  show ?thesis
  proof (cases "ord \<in> set (w_orders w)")
    case False
    with assms Call_Order_add_item show ?thesis by simp
  next
    case True
    show ?thesis
    proof (cases "Order_add_item (w_heap w) ord p quantity")
      case (Inl e)
      with assms Call_Order_add_item True show ?thesis by simp
    next
      case (Inr h')
      note f = Order_add_item_frame [OF Inr]
      have "run_call w call = w\<lparr>w_heap := h'\<rparr>"
        using Call_Order_add_item True Inr by simp
      then show ?thesis
        using assms f(1,2,3) by (auto simp add: world_inv_def Let_def)
    qed
  qed
next
  case (Call_Order_remove_item ord p)
  with assms show ?thesis
    by (auto simp add: world_inv_def Order_remove_item_def Let_def)
next
  case (Call_list_assign l xs)
  with assms show ?thesis
    by (auto simp add: world_inv_def list_assign_def Let_def)
next
  case (Call_Client_set_name c v)
  show ?thesis
    by (rule world_inv_same_lists [OF assms]) (simp_all add: Call_Client_set_name Let_def)
next
  case (Call_Client_set_email c v)
  show ?thesis
    by (rule world_inv_same_lists [OF assms]) (simp_all add: Call_Client_set_email Let_def)
next
  case (Call_Client_set_phone c v)
  show ?thesis
    by (rule world_inv_same_lists [OF assms]) (simp_all add: Call_Client_set_phone Let_def)
next
  case (Call_Client_set_address c v)
  show ?thesis
    by (rule world_inv_same_lists [OF assms]) (simp_all add: Call_Client_set_address Let_def)
next
  case (Call_Product_set_name p v)
  show ?thesis
    by (rule world_inv_same_lists [OF assms]) (simp_all add: Call_Product_set_name Let_def)
next
  case (Call_Product_set_category p v)
  show ?thesis
    by (rule world_inv_same_lists [OF assms]) (simp_all add: Call_Product_set_category Let_def)
next
  case (Call_Product_set_description p v)
  show ?thesis
    by (rule world_inv_same_lists [OF assms]) (simp_all add: Call_Product_set_description Let_def)
next
  case (Call_Order_set_status ord v)
  show ?thesis
    by (rule world_inv_same_lists [OF assms]) (simp_all add: Call_Order_set_status Let_def)
qed

lemma world_inv_run_calls: "world_inv w \<Longrightarrow> world_inv (run_calls w calls)"
  unfolding run_calls_def
  by (induction calls arbitrary: w) (simp_all add: world_inv_run_call)

lemma client_order_list_frame:
  assumes "world_inv w" and "c \<in> set (w_clients w)" and "\<not> adds_order_to c call"
  shows "client_order_list (w_heap (run_call w call)) c = client_order_list (w_heap w) c"
proof -
  have a: "c < h_next (w_heap w)" "c_orders (h_clients (w_heap w) c) < h_next (w_heap w)"
    using assms(1,2) by (simp_all add: world_inv_def Let_def)
  have b: "\<And>c1. c1 \<in> set (w_clients w) \<Longrightarrow> c1 \<noteq> c
             \<Longrightarrow> c_orders (h_clients (w_heap w) c1) \<noteq> c_orders (h_clients (w_heap w) c)"
    using assms(1,2) unfolding world_inv_def Let_def by blast
  have c: "\<And>ord1. ord1 \<in> set (w_orders w)
             \<Longrightarrow> c_orders (h_clients (w_heap w) c) \<noteq> o_items (h_orders (w_heap w) ord1)"
    using assms(1,2) unfolding world_inv_def Let_def by blast
  have d: "\<And>l. l \<in> set (w_lists w) \<Longrightarrow> l \<noteq> c_orders (h_clients (w_heap w) c)"
    using assms(1,2) unfolding world_inv_def Let_def by blast
  show ?thesis
  proof (cases call)
    case (Call_Client_init name email phone address)
    with a show ?thesis
      by (auto simp add: client_order_list_def Client_init_def Let_def)
  next
    case (Call_Client_orders c1)
    with a show ?thesis
      by (auto simp add: client_order_list_def Client_orders_def Let_def)
  next
    case (Call_Client_add_order c1 ord1)
    show ?thesis
    proof (cases "c1 \<in> set (w_clients w)")
      case False
      with Call_Client_add_order show ?thesis by simp
    next
      case True
      have "c1 \<noteq> c"
        using assms(3) Call_Client_add_order by simp
      then have "c_orders (h_clients (w_heap w) c1) \<noteq> c_orders (h_clients (w_heap w) c)"
        using b True by simp
      then show ?thesis
        using Call_Client_add_order True
        by (simp add: client_order_list_def Client_add_order_def Let_def)
    qed
  next
    case (Call_Product_init name price category description)
    with a show ?thesis
      by (auto simp add: client_order_list_def Product_init_def Let_def)
  next
    case (Call_Product_set_price p v)
    with a show ?thesis
      by (auto simp add: client_order_list_def Product_set_price_def Let_def)
  next
    case (Call_OrderItem_init p quantity)
    with a show ?thesis
      by (auto simp add: client_order_list_def OrderItem_init_def Let_def)
  next
    case (Call_OrderItem_set_quantity item v)
    with a show ?thesis
      by (auto simp add: client_order_list_def OrderItem_set_quantity_def Let_def)
  next
    case (Call_Order_init c1 d now)
    show ?thesis
    proof (cases "c1 \<in> set (w_clients w)")
      case False
      with Call_Order_init show ?thesis by simp
    next
      case True
      have "c1 \<noteq> c"
        using assms(3) Call_Order_init by simp
      then have "c_orders (h_clients (w_heap w) c1) \<noteq> c_orders (h_clients (w_heap w) c)"
        using b True by simp
      then show ?thesis
        using Call_Order_init True a
        by (simp add: client_order_list_def Order_init_def Client_add_order_def Let_def)
    qed
  next
    case (Call_Order_items ord1)
    with a show ?thesis
      by (auto simp add: client_order_list_def Order_items_def Let_def)
  next
    case (Call_Order_add_item ord1 p quantity)
    show ?thesis
    proof (cases "ord1 \<in> set (w_orders w)")
      case False
      with Call_Order_add_item show ?thesis by simp
    next
      case True
      show ?thesis
      proof (cases "Order_add_item (w_heap w) ord1 p quantity")
        case (Inl e)
        with Call_Order_add_item True show ?thesis by simp
      next
        case (Inr h')
        have n: "c_orders (h_clients (w_heap w) c) \<noteq> o_items (h_orders (w_heap w) ord1)"
          using c True by simp
        have "run_call w call = w\<lparr>w_heap := h'\<rparr>"
          using Call_Order_add_item True Inr by simp
        then show ?thesis
          using Order_add_item_frame(1,2) [OF Inr] Order_add_item_frame(4) [OF Inr n]
          by (simp add: client_order_list_def)
      qed
    qed
  next
    case (Call_Order_remove_item ord1 p)
    with a show ?thesis
      by (auto simp add: client_order_list_def Order_remove_item_def Let_def)
  next
    case (Call_list_assign l xs)
    with d show ?thesis
      by (auto simp add: client_order_list_def list_assign_def Let_def)
  next
    case (Call_Client_set_name c1 v)
    with a show ?thesis
      by (auto simp add: client_order_list_def  Let_def)
  next
    case (Call_Client_set_email c1 v)
    with a show ?thesis
      by (auto simp add: client_order_list_def  Let_def)
  next
    case (Call_Client_set_phone c1 v)
    with a show ?thesis
      by (auto simp add: client_order_list_def  Let_def)
  next
    case (Call_Client_set_address c1 v)
    with a show ?thesis
      by (auto simp add: client_order_list_def  Let_def)
  next
    case (Call_Product_set_name p v)
    with a show ?thesis
      by (auto simp add: client_order_list_def  Let_def)
  next
    case (Call_Product_set_category p v)
    with a show ?thesis
      by (auto simp add: client_order_list_def  Let_def)
  next
    case (Call_Product_set_description p v)
    with a show ?thesis
      by (auto simp add: client_order_list_def  Let_def)
  next
    case (Call_Order_set_status ord1 v)
    with a show ?thesis
      by (auto simp add: client_order_list_def  Let_def)
  qed
qed

lemma order_item_list_frame:
  assumes "world_inv w" and "ord \<in> set (w_orders w)" and "\<not> changes_items_of ord call"
  shows "order_item_list (w_heap (run_call w call)) ord = order_item_list (w_heap w) ord"
proof -
  have a: "ord < h_next (w_heap w)" "o_items (h_orders (w_heap w) ord) < h_next (w_heap w)"
    using assms(1,2) by (simp_all add: world_inv_def Let_def)
  have b: "\<And>ord1. ord1 \<in> set (w_orders w) \<Longrightarrow> ord1 \<noteq> ord
             \<Longrightarrow> o_items (h_orders (w_heap w) ord) \<noteq> o_items (h_orders (w_heap w) ord1)"
    using assms(1,2) unfolding world_inv_def Let_def by blast
  have c: "\<And>c1. c1 \<in> set (w_clients w)
             \<Longrightarrow> c_orders (h_clients (w_heap w) c1) \<noteq> o_items (h_orders (w_heap w) ord)"
    using assms(1,2) unfolding world_inv_def Let_def by blast
  have d: "\<And>l. l \<in> set (w_lists w) \<Longrightarrow> l \<noteq> o_items (h_orders (w_heap w) ord)"
    using assms(1,2) unfolding world_inv_def Let_def by blast
  show ?thesis
  proof (cases call)
    case (Call_Client_init name email phone address)
    with a show ?thesis
      by (auto simp add: order_item_list_def Client_init_def Let_def)
  next
    case (Call_Client_orders c1)
    with a show ?thesis
      by (auto simp add: order_item_list_def Client_orders_def Let_def)
  next
    case (Call_Client_add_order c1 ord1)
    show ?thesis
    proof (cases "c1 \<in> set (w_clients w)")
      case False
      with Call_Client_add_order show ?thesis by simp
    next
      case True
      then have "c_orders (h_clients (w_heap w) c1) \<noteq> o_items (h_orders (w_heap w) ord)"
        using c by simp
      then show ?thesis
        using Call_Client_add_order True
        by (simp add: order_item_list_def Client_add_order_def Let_def)
    qed
  next
    case (Call_Product_init name price category description)
    with a show ?thesis
      by (auto simp add: order_item_list_def Product_init_def Let_def)
  next
    case (Call_Product_set_price p v)
    with a show ?thesis
      by (auto simp add: order_item_list_def Product_set_price_def Let_def)
  next
    case (Call_OrderItem_init p quantity)
    with a show ?thesis
      by (auto simp add: order_item_list_def OrderItem_init_def Let_def)
  next
    case (Call_OrderItem_set_quantity item v)
    with a show ?thesis
      by (auto simp add: order_item_list_def OrderItem_set_quantity_def Let_def)
  next
    case (Call_Order_init c1 d now)
    show ?thesis
    proof (cases "c1 \<in> set (w_clients w)")
      case False
      with Call_Order_init show ?thesis by simp
    next
      case True
      then have "c_orders (h_clients (w_heap w) c1) \<noteq> o_items (h_orders (w_heap w) ord)"
        using c by simp
      then show ?thesis
        using Call_Order_init True a
        by (simp add: order_item_list_def Order_init_def Client_add_order_def Let_def)
    qed
  next
    case (Call_Order_items ord1)
    with a show ?thesis
      by (auto simp add: order_item_list_def Order_items_def Let_def)
  next
    case (Call_Order_add_item ord1 p quantity)
    show ?thesis
    proof (cases "ord1 \<in> set (w_orders w)")
      case False
      with Call_Order_add_item show ?thesis by simp
    next
      case True
      show ?thesis
      proof (cases "Order_add_item (w_heap w) ord1 p quantity")
        case (Inl e)
        with Call_Order_add_item True show ?thesis by simp
      next
        case (Inr h')
        have n: "o_items (h_orders (w_heap w) ord) \<noteq> o_items (h_orders (w_heap w) ord1)"
          proof -
          have "ord1 \<noteq> ord"
            using assms(3) Call_Order_add_item by simp
          then show ?thesis
            using b True by simp
        qed
        have "run_call w call = w\<lparr>w_heap := h'\<rparr>"
          using Call_Order_add_item True Inr by simp
        then show ?thesis
          using Order_add_item_frame(1,2) [OF Inr] Order_add_item_frame(4) [OF Inr n]
          by (simp add: order_item_list_def)
      qed
    qed
  next
    case (Call_Order_remove_item ord1 p)
    show ?thesis
    proof (cases "ord1 \<in> set (w_orders w)")
      case False
      with Call_Order_remove_item show ?thesis by simp
    next
      case True
      have "ord1 \<noteq> ord"
        using assms(3) Call_Order_remove_item by simp
      then show ?thesis
        using Call_Order_remove_item True a
        by (simp add: order_item_list_def Order_remove_item_def Let_def)
    qed
  next
    case (Call_list_assign l xs)
    with d show ?thesis
      by (auto simp add: order_item_list_def list_assign_def Let_def)
  next
    case (Call_Client_set_name c1 v)
    with a show ?thesis
      by (auto simp add: order_item_list_def  Let_def)
  next
    case (Call_Client_set_email c1 v)
    with a show ?thesis
      by (auto simp add: order_item_list_def  Let_def)
  next
    case (Call_Client_set_phone c1 v)
    with a show ?thesis
      by (auto simp add: order_item_list_def  Let_def)
  next
    case (Call_Client_set_address c1 v)
    with a show ?thesis
      by (auto simp add: order_item_list_def  Let_def)
  next
    case (Call_Product_set_name p v)
    with a show ?thesis
      by (auto simp add: order_item_list_def  Let_def)
  next
    case (Call_Product_set_category p v)
    with a show ?thesis
      by (auto simp add: order_item_list_def  Let_def)
  next
    case (Call_Product_set_description p v)
    with a show ?thesis
      by (auto simp add: order_item_list_def  Let_def)
  next
    case (Call_Order_set_status ord1 v)
    with a show ?thesis
      by (auto simp add: order_item_list_def  Let_def)
  qed
qed

lemma example_program_world:
  "w_clients (run_calls empty_world example_program) = [1]"
  "w_orders (run_calls empty_world example_program) = [3]"
  "w_lists (run_calls empty_world example_program) = [5]"
  "client_order_list (w_heap (run_calls empty_world example_program)) 1 = [3]"
  "order_item_list (w_heap (run_calls empty_world example_program)) 3 = []"
  by (simp_all add: run_calls_def example_program_def empty_world_def empty_heap_def
      Client_init_def Order_init_def Client_add_order_def Client_orders_def
      client_order_list_def order_item_list_def Let_def del: One_nat_def)

text \<open>
  Claim C10, as stated, fails in its last part: the state of an order also changes through
  the copy that \<^verbatim>\<open>Order.items\<close> returns, because the copy is shallow. In the example store,
  order 13 holds the items 15 (two of P at 100) and 16 (one of Q at 350), and its total is 550.
  The accessor returns a new list of the same two item objects; the quantity setter on its
  first element, which is none of \<^verbatim>\<open>add_order\<close>, \<^verbatim>\<open>add_item\<close> and \<^verbatim>\<open>remove_item\<close>, takes the
  quantity of the stored item from 2 to 9 and the order's total to 1250, while the stored
  list holds the same items as before.
\<close>

theorem quantity_setter_on_copy_changes_order:
  "(case Order_items example_store 13 of (h1, l) \<Rightarrow>
      l \<noteq> o_items (h_orders h1 13)
      \<and> h_lists h1 l = [15, 16]
      \<and> (case OrderItem_set_quantity h1 (hd (h_lists h1 l)) 9 of
            Inl e \<Rightarrow> False
          | Inr h2 \<Rightarrow>
              order_item_list h2 13 = order_item_list example_store 13
              \<and> i_quantity (h_order_items example_store 15) = 2
              \<and> i_quantity (h_order_items h2 15) = 9
              \<and> Order_total_amount exact_arith example_store 13 = 550
              \<and> Order_total_amount exact_arith h2 13 = 1250))"
  by (simp add: Order_items_def OrderItem_set_quantity_def order_item_list_def
      Order_total_amount_def OrderItem_total_price_def example_store_eq
      example_product_table_def Let_def del: One_nat_def)
    (simp add: exact_arith_def)

text \<open>
  Claim C10, amended. \<^verbatim>\<open>Client.orders\<close> and \<^verbatim>\<open>Order.items\<close> return a new list object with the
  contents of the stored list: for a client and an order whose stored lists are allocated
  objects, the returned list is not the stored one, the stored list is left as it was, and
  whatever is then assigned to the returned list (any in-place mutation of it) leaves the
  stored list as it was. In every state that a program of calls on the classes of models.py
  reaches, the stored lists of the constructed clients and orders are allocated objects;
  a client's stored list of orders is left as it was by every call that is neither
  \<^verbatim>\<open>add_order\<close> on that client nor the construction of an order for it, and an order's
  stored list of items is left as it was by every call that is neither \<^verbatim>\<open>add_item\<close> nor
  \<^verbatim>\<open>remove_item\<close> on that order. The copy is shallow: the quantity setter, on any item,
  raises for a value below 1 and otherwise assigns the quantity of that item and leaves
  every order's stored list as it was, so the state of the items that a list holds is not
  protected by the copy.
\<close>

theorem accessors_return_fresh_copy:
  "(c_orders (h_clients h c) < h_next h \<longrightarrow>
      (case Client_orders h c of (h', l) \<Rightarrow>
         h_lists h' l = client_order_list h c
         \<and> l \<noteq> c_orders (h_clients h' c)
         \<and> client_order_list h' c = client_order_list h c
         \<and> (\<forall>xs. client_order_list (list_assign h' l xs) c = client_order_list h c)))
   \<and> (o_items (h_orders h ord) < h_next h \<longrightarrow>
      (case Order_items h ord of (h', l) \<Rightarrow>
         h_lists h' l = order_item_list h ord
         \<and> l \<noteq> o_items (h_orders h' ord)
         \<and> order_item_list h' ord = order_item_list h ord
         \<and> (\<forall>xs. order_item_list (list_assign h' l xs) ord = order_item_list h ord)))
   \<and> (let w = run_calls empty_world calls
       in (\<forall>c1 \<in> set (w_clients w).
             c_orders (h_clients (w_heap w) c1) < h_next (w_heap w)
             \<and> (\<not> adds_order_to c1 call \<longrightarrow>
                  client_order_list (w_heap (run_call w call)) c1
                    = client_order_list (w_heap w) c1))
          \<and> (\<forall>ord1 \<in> set (w_orders w).
                o_items (h_orders (w_heap w) ord1) < h_next (w_heap w)
                \<and> (\<not> changes_items_of ord1 call \<longrightarrow>
                     order_item_list (w_heap (run_call w call)) ord1
                       = order_item_list (w_heap w) ord1)))
   \<and> (case OrderItem_set_quantity h item v of
         Inl e \<Rightarrow> v < 1
       | Inr h' \<Rightarrow>
           1 \<le> v
           \<and> order_item_list h' ord = order_item_list h ord
           \<and> i_quantity (h_order_items h' item) = v)"
proof -
  have copies:
    "c_orders (h_clients h c) < h_next h \<longrightarrow>
      (case Client_orders h c of (h', l) \<Rightarrow>
         h_lists h' l = client_order_list h c
         \<and> l \<noteq> c_orders (h_clients h' c)
         \<and> client_order_list h' c = client_order_list h c
         \<and> (\<forall>xs. client_order_list (list_assign h' l xs) c = client_order_list h c))"
    "o_items (h_orders h ord) < h_next h \<longrightarrow>
      (case Order_items h ord of (h', l) \<Rightarrow>
         h_lists h' l = order_item_list h ord
         \<and> l \<noteq> o_items (h_orders h' ord)
         \<and> order_item_list h' ord = order_item_list h ord
         \<and> (\<forall>xs. order_item_list (list_assign h' l xs) ord = order_item_list h ord))"
    by (simp_all add: Client_orders_def Order_items_def list_assign_def client_order_list_def
        order_item_list_def Let_def)
  define w where "w = run_calls empty_world calls"
  have inv: "world_inv w"
    unfolding w_def by (rule world_inv_run_calls) (rule world_inv_empty)
  have clients: "\<forall>c1 \<in> set (w_clients w).
      c_orders (h_clients (w_heap w) c1) < h_next (w_heap w)
      \<and> (\<not> adds_order_to c1 call \<longrightarrow>
           client_order_list (w_heap (run_call w call)) c1 = client_order_list (w_heap w) c1)"
  proof (intro ballI conjI impI)
    fix c1 assume "c1 \<in> set (w_clients w)"
    then show "c_orders (h_clients (w_heap w) c1) < h_next (w_heap w)"
      using inv by (simp add: world_inv_def Let_def)
  next
    fix c1 assume "c1 \<in> set (w_clients w)" and "\<not> adds_order_to c1 call"
    then show "client_order_list (w_heap (run_call w call)) c1 = client_order_list (w_heap w) c1"
      using inv by (simp add: client_order_list_frame)
  qed
  have orders: "\<forall>ord1 \<in> set (w_orders w).
      o_items (h_orders (w_heap w) ord1) < h_next (w_heap w)
      \<and> (\<not> changes_items_of ord1 call \<longrightarrow>
           order_item_list (w_heap (run_call w call)) ord1 = order_item_list (w_heap w) ord1)"
  proof (intro ballI conjI impI)
    fix ord1 assume "ord1 \<in> set (w_orders w)"
    then show "o_items (h_orders (w_heap w) ord1) < h_next (w_heap w)"
      using inv by (simp add: world_inv_def Let_def)
  next
    fix ord1 assume "ord1 \<in> set (w_orders w)" and "\<not> changes_items_of ord1 call"
    then show "order_item_list (w_heap (run_call w call)) ord1 = order_item_list (w_heap w) ord1"
      using inv by (simp add: order_item_list_frame)
  qed
  have setter: "(case OrderItem_set_quantity h item v of
         Inl e \<Rightarrow> v < 1
       | Inr h' \<Rightarrow>
           1 \<le> v
           \<and> order_item_list h' ord = order_item_list h ord
           \<and> i_quantity (h_order_items h' item) = v)"
    by (simp add: OrderItem_set_quantity_def order_item_list_def)
  show ?thesis
    using copies clients orders setter unfolding w_def Let_def by blast
qed

theorem accessors_return_fresh_copy_witness:
  "c_orders (h_clients example_store 1) < h_next example_store
   \<and> o_items (h_orders example_store 13) < h_next example_store
   \<and> client_order_list example_store 1 = [10, 13]
   \<and> snd (Client_orders example_store 1) = 20
   \<and> client_order_list (list_assign (fst (Client_orders example_store 1)) 20 [10, 13, 17]) 1
       = [10, 13]
   \<and> order_item_list example_store 13 = [15, 16]
   \<and> snd (Order_items example_store 13) = 20
   \<and> order_item_list (list_assign (fst (Order_items example_store 13)) 20 []) 13 = [15, 16]
   \<and> w_clients (run_calls empty_world example_program) = [1]
   \<and> w_orders (run_calls empty_world example_program) = [3]
   \<and> w_lists (run_calls empty_world example_program) = [5]
   \<and> \<not> adds_order_to 1 (Call_list_assign 5 [])
   \<and> \<not> changes_items_of 3 (Call_list_assign 5 [])
   \<and> client_order_list (w_heap (run_calls empty_world example_program)) 1 = [3]
   \<and> client_order_list
         (w_heap (run_call (run_calls empty_world example_program) (Call_list_assign 5 []))) 1
       = [3]
   \<and> order_item_list
         (w_heap (run_call (run_calls empty_world example_program) (Call_list_assign 5 []))) 3
       = []
   \<and> (\<exists>h'. OrderItem_set_quantity example_store 15 9 = Inr h'
            \<and> order_item_list h' 13 = [15, 16]
            \<and> i_quantity (h_order_items h' 15) = 9)"
proof -
  have c: "c_orders (h_clients example_store 1) < h_next example_store"
    by (simp add: example_store_eq example_client_table_def del: One_nat_def)
  have i: "o_items (h_orders example_store 13) < h_next example_store"
    by (simp add: example_store_eq del: One_nat_def)
  have l: "client_order_list example_store 1 = [10, 13]"
    by (simp add: client_order_list_def example_store_eq example_client_table_def
        del: One_nat_def)
  have m: "order_item_list example_store 13 = [15, 16]"
    by (simp add: order_item_list_def example_store_eq del: One_nat_def)
  have n: "snd (Client_orders example_store 1) = 20" "snd (Order_items example_store 13) = 20"
    by (simp_all add: Client_orders_def Order_items_def Let_def example_store_eq
        del: One_nat_def)
  have s: "\<exists>h'. OrderItem_set_quantity example_store 15 9 = Inr h'"
    by (simp add: OrderItem_set_quantity_def)
  show ?thesis
    using accessors_return_fresh_copy
      [where h = example_store and c = 1 and ord = 13 and calls = example_program
        and call = "Call_list_assign 5 []" and item = 15 and v = 9]
      c i l m n s example_program_world
    by (auto simp add: split_beta Let_def simp del: One_nat_def)
qed

section \<open>A client's order list has no duplicates\<close>

lemma Client_add_order_distinct:
  "distinct (h_lists h l) \<Longrightarrow> distinct (h_lists (Client_add_order h c ord) l)"
  by (auto simp add: Client_add_order_def Let_def)

lemma Client_add_order_clients [simp]: "h_clients (Client_add_order h c ord) = h_clients h"
  by (simp add: Client_add_order_def Let_def)

lemma run_client_op_distinct:
  "distinct (h_lists h l) \<Longrightarrow> distinct (h_lists (run_client_op h op) l)"
  by (cases op) (simp_all add: Order_init_def Let_def Client_add_order_distinct)

lemma run_client_op_clients [simp]: "h_clients (run_client_op h op) = h_clients h"
  by (cases op) (simp_all add: Order_init_def Let_def)

lemma run_client_ops_distinct:
  "distinct (h_lists h l) \<Longrightarrow> distinct (h_lists (run_client_ops h ops) l)"
  unfolding run_client_ops_def
  by (induction ops arbitrary: h) (simp_all add: run_client_op_distinct)

lemma run_client_ops_clients [simp]: "h_clients (run_client_ops h ops) = h_clients h"
  unfolding run_client_ops_def
  by (induction ops arbitrary: h) simp_all


text \<open>
  Claim C9. Constructing an order for a client whose order list is an allocated object
  holding allocated orders appends the new order to that list, and the new order refers to
  the client. \<^verbatim>\<open>add_order\<close> with an order that is already in the list changes nothing. No
  sequence of constructions and \<^verbatim>\<open>add_order\<close> calls, on any clients, puts a duplicate into a
  list that has none; a client's list starts empty, so it never holds a duplicate.
\<close>

theorem client_orders_no_duplicates:
  "(c_orders (h_clients h c) < h_next h \<and> (\<forall>x \<in> set (client_order_list h c). x < h_next h)
      \<longrightarrow> (case Order_init h c d now of (h', ord) \<Rightarrow>
             client_order_list h' c = client_order_list h c @ [ord]
             \<and> o_client (h_orders h' ord) = c))
   \<and> (ord \<in> set (client_order_list h c) \<longrightarrow> Client_add_order h c ord = h)
   \<and> (distinct (client_order_list h c)
      \<longrightarrow> distinct (client_order_list (run_client_ops h ops) c))
   \<and> (case Client_init h name email phone address of (h', c') \<Rightarrow>
         distinct (client_order_list (run_client_ops h' ops) c'))"
proof (intro conjI impI)
  assume "c_orders (h_clients h c) < h_next h \<and> (\<forall>x \<in> set (client_order_list h c). x < h_next h)"
  then show "case Order_init h c d now of (h', ord) \<Rightarrow>
      client_order_list h' c = client_order_list h c @ [ord] \<and> o_client (h_orders h' ord) = c"
    by (auto simp add: Order_init_def Client_add_order_def client_order_list_def Let_def)
next
  assume "ord \<in> set (client_order_list h c)"
  then show "Client_add_order h c ord = h"
    by (simp add: Client_add_order_def client_order_list_def Let_def)
next
  assume "distinct (client_order_list h c)"
  then show "distinct (client_order_list (run_client_ops h ops) c)"
    by (simp add: client_order_list_def run_client_ops_distinct)
next
  show "case Client_init h name email phone address of (h', c') \<Rightarrow>
      distinct (client_order_list (run_client_ops h' ops) c')"
    by (simp add: client_order_list_def Client_init_def Let_def run_client_ops_distinct)
qed

theorem client_orders_no_duplicates_witness:
  "c_orders (h_clients example_store 1) < h_next example_store
   \<and> list_all (\<lambda>x. x < h_next example_store) (client_order_list example_store 1)
   \<and> client_order_list example_store 1 = [10, 13]
   \<and> client_order_list (fst (Order_init example_store 1 None (example_date 4))) 1
       = [10, 13, 20]
   \<and> Client_add_order example_store 1 13 = example_store
   \<and> distinct (client_order_list
        (run_client_ops example_store
           [AddOrder 1 13, NewOrder 1 None (example_date 4), AddOrder 1 20, AddOrder 1 17]) 1)"
proof -
  have l: "client_order_list example_store 1 = [10, 13]"
    by (simp add: client_order_list_def example_store_eq example_client_table_def
        del: One_nat_def)
  have n: "h_next example_store = 20"
    by (simp add: example_store_eq)
  have c: "c_orders (h_clients example_store 1) = 2"
    by (simp add: example_store_eq example_client_table_def del: One_nat_def)
  have s: "snd (Order_init example_store 1 None (example_date 4)) = 20"
    by (simp add: Order_init_def Let_def n)
  note t = client_orders_no_duplicates [of example_store 1 None "example_date 4" 13
      "[AddOrder 1 13, NewOrder 1 None (example_date 4), AddOrder 1 20, AddOrder 1 17]"]
  show ?thesis
    using t l n c s by (simp add: split_beta list_all_iff)
qed

section \<open>An order holds at most one item per product\<close>

lemma add_item_loop_None:
  "add_item_loop h items pr q = None
     \<longleftrightarrow> p_product_id (h_products h pr) \<notin> set (map (item_product_id h) items)"
  by (induction items) auto

lemma add_item_loop_Some:
  assumes "distinct (map (item_product_id h) items)" and "item \<in> set items"
    and "item_product_id h item = p_product_id (h_products h pr)"
  shows "add_item_loop h items pr q
           = Some (OrderItem_set_quantity h item (i_quantity (h_order_items h item) + q))"
  using assms by (induction items) force+

lemma set_quantity_frame:
  assumes "OrderItem_set_quantity h item v = Inr h'"
  shows "h_lists h' = h_lists h" and "h_orders h' = h_orders h" and "h_next h' = h_next h"
    and "h_products h' = h_products h" and "h_clients h' = h_clients h"
    and "h_order_items h' = (h_order_items h)(item := (h_order_items h item)\<lparr>i_quantity := v\<rparr>)"
    and "1 \<le> v"
  using assms by (auto simp add: OrderItem_set_quantity_def split: if_splits)

lemma set_quantity_product_id:
  assumes "OrderItem_set_quantity h item v = Inr h'"
  shows "item_product_id h' x = item_product_id h x"
  using set_quantity_frame [OF assms] by (simp add: item_product_id_def)

lemma add_item_existing:
  assumes inv: "order_inv h ord" and mem: "item \<in> set (order_item_list h ord)"
    and pid: "item_product_id h item = p_product_id (h_products h pr)"
  shows "if i_quantity (h_order_items h item) + q < 1
         then Order_add_item h ord pr q = Inl ValueError
         else (\<exists>h'. Order_add_item h ord pr q = Inr h'
                \<and> order_item_list h' ord = order_item_list h ord
                \<and> i_quantity (h_order_items h' item) = i_quantity (h_order_items h item) + q
                \<and> i_product (h_order_items h' item) = i_product (h_order_items h item)
                \<and> (\<forall>x. x \<noteq> item \<longrightarrow> h_order_items h' x = h_order_items h x)
                \<and> h_products h' = h_products h)"
proof -
  have "Order_add_item h ord pr q
          = OrderItem_set_quantity h item (i_quantity (h_order_items h item) + q)"
    using add_item_loop_Some [of h "order_item_list h ord" item pr q] inv mem pid
    by (simp add: Order_add_item_def order_inv_def order_item_list_def)
  then show ?thesis
    by (simp add: OrderItem_set_quantity_def order_item_list_def)
qed

lemma add_item_new:
  assumes inv: "order_inv h ord"
    and new: "p_product_id (h_products h pr) \<notin> set (map (item_product_id h) (order_item_list h ord))"
  shows "\<exists>h'. Order_add_item h ord pr q = Inr h'
           \<and> order_item_list h' ord = order_item_list h ord @ [h_next h]
           \<and> h_next h \<notin> set (order_item_list h ord)
           \<and> h_order_items h' (h_next h) = \<lparr>i_product = pr, i_quantity = q\<rparr>
           \<and> (\<forall>x. x \<noteq> h_next h \<longrightarrow> h_order_items h' x = h_order_items h x)
           \<and> h_products h' = h_products h"
proof -
  have "add_item_loop h (order_item_list h ord) pr q = None"
    using new by (simp add: add_item_loop_None)
  moreover have "h_next h \<notin> set (order_item_list h ord)"
    using inv by (auto simp add: order_inv_def list_all_iff)
  ultimately show ?thesis
    by (simp add: Order_add_item_def OrderItem_init_def order_item_list_def Let_def)
qed

lemma add_item_inv:
  assumes inv: "order_inv h ord" and ok: "Order_add_item h ord pr q = Inr h'"
  shows "order_inv h' ord"
proof (cases "p_product_id (h_products h pr) \<in> set (map (item_product_id h) (order_item_list h ord))")
  case True
  then obtain item where mem: "item \<in> set (order_item_list h ord)"
    and pid: "item_product_id h item = p_product_id (h_products h pr)"
    by auto
  have eq: "Order_add_item h ord pr q
          = OrderItem_set_quantity h item (i_quantity (h_order_items h item) + q)"
    using add_item_loop_Some [of h "order_item_list h ord" item pr q] inv mem pid
    by (simp add: Order_add_item_def order_inv_def order_item_list_def)
  with ok have sq: "OrderItem_set_quantity h item (i_quantity (h_order_items h item) + q) = Inr h'"
    by simp
  have "item_product_id h' = item_product_id h"
    by (rule ext) (rule set_quantity_product_id [OF sq])
  moreover have "order_item_list h' ord = order_item_list h ord" "h_next h' = h_next h"
    using set_quantity_frame [OF sq] by (simp_all add: order_item_list_def)
  ultimately show ?thesis using inv by (simp add: order_inv_def)
next
  case False
  from add_item_new [OF inv False, of q] ok
  have l: "order_item_list h' ord = order_item_list h ord @ [h_next h]"
    and fresh: "h_next h \<notin> set (order_item_list h ord)"
    and new: "h_order_items h' (h_next h) = \<lparr>i_product = pr, i_quantity = q\<rparr>"
    and old: "\<forall>x. x \<noteq> h_next h \<longrightarrow> h_order_items h' x = h_order_items h x"
    and prods: "h_products h' = h_products h"
    by auto
  have nxt: "h_next h' = Suc (h_next h)"
    using ok False add_item_loop_None [of h "order_item_list h ord" pr q]
    by (auto simp add: Order_add_item_def OrderItem_init_def order_item_list_def Let_def)
  have same: "map (item_product_id h') (order_item_list h ord) = map (item_product_id h) (order_item_list h ord)"
  proof (rule map_cong [OF refl])
    fix x assume "x \<in> set (order_item_list h ord)"
    with fresh have "x \<noteq> h_next h" by auto
    with old have "h_order_items h' x = h_order_items h x" by simp
    with prods show "item_product_id h' x = item_product_id h x"
      by (simp add: item_product_id_def)
  qed
  have pidnew: "item_product_id h' (h_next h) = p_product_id (h_products h pr)"
    using new prods by (simp add: item_product_id_def)
  have "distinct (map (item_product_id h') (order_item_list h' ord))"
    unfolding l map_append same using inv False pidnew by (simp add: order_inv_def)
  moreover have "list_all (\<lambda>item. item < h_next h') (order_item_list h' ord)"
    unfolding l nxt using inv by (auto simp add: order_inv_def list_all_iff less_Suc_eq)
  ultimately show ?thesis by (simp add: order_inv_def)
qed

lemma remove_item_inv:
  assumes inv: "order_inv h ord"
  shows "order_inv (Order_remove_item h ord pr) ord"
proof -
  have "item_product_id (Order_remove_item h ord pr) = item_product_id h"
    by (rule ext) (simp add: item_product_id_def Order_remove_item_def Let_def)
  moreover have "order_item_list (Order_remove_item h ord pr) ord
      = filter (\<lambda>item. item_product_id h item \<noteq> p_product_id (h_products h pr)) (order_item_list h ord)"
    by (simp add: order_item_list_def Order_remove_item_def Let_def)
  moreover have "h_next (Order_remove_item h ord pr) = Suc (h_next h)"
    by (simp add: Order_remove_item_def Let_def)
  ultimately show ?thesis
    using inv by (auto simp add: order_inv_def list_all_iff distinct_map_filter less_Suc_eq)
qed

lemma run_order_op_inv: "order_inv h ord \<Longrightarrow> order_inv (run_order_op ord h op) ord"
  by (cases op) (auto simp add: add_item_inv remove_item_inv split: sum.splits)

lemma run_order_ops_inv: "order_inv h ord \<Longrightarrow> order_inv (run_order_ops h ord ops) ord"
  unfolding run_order_ops_def
  by (induction ops arbitrary: h) (simp_all add: run_order_op_inv)

lemma Order_init_inv: "order_inv (fst (Order_init h c d now)) (snd (Order_init h c d now))"
  by (auto simp add: Order_init_def Client_add_order_def order_inv_def order_item_list_def Let_def)


text \<open>
  Claim C8. An order holds at most one item per product id: the invariant holds for a new
  order and after every sequence of \<^verbatim>\<open>add_item\<close> and \<^verbatim>\<open>remove_item\<close> calls on it, and each
  call preserves it. When the order has an item for the product, \<^verbatim>\<open>add_item\<close> assigns that
  item's quantity plus the given amount through the validating setter (ValueError, and
  nothing changed, when the sum is below 1) and leaves the item list as it was. Otherwise
  it appends exactly one new item, for that product with the given quantity.
\<close>

theorem order_one_item_per_product:
  "order_inv (run_order_ops (fst (Order_init h c d now)) (snd (Order_init h c d now)) ops)
     (snd (Order_init h c d now))
   \<and> (order_inv h ord \<longrightarrow>
        order_inv (run_order_op ord h (AddItem pr q)) ord
        \<and> order_inv (run_order_op ord h (RemoveItem pr)) ord
        \<and> (\<forall>item \<in> set (order_item_list h ord).
              item_product_id h item = p_product_id (h_products h pr) \<longrightarrow>
              (if i_quantity (h_order_items h item) + q < 1
               then Order_add_item h ord pr q = Inl ValueError
               else (\<exists>h'. Order_add_item h ord pr q = Inr h'
                      \<and> order_item_list h' ord = order_item_list h ord
                      \<and> i_quantity (h_order_items h' item)
                          = i_quantity (h_order_items h item) + q
                      \<and> i_product (h_order_items h' item) = i_product (h_order_items h item)
                      \<and> (\<forall>x. x \<noteq> item \<longrightarrow> h_order_items h' x = h_order_items h x)
                      \<and> h_products h' = h_products h)))
        \<and> (p_product_id (h_products h pr)
              \<notin> set (map (item_product_id h) (order_item_list h ord)) \<longrightarrow>
              (\<exists>h'. Order_add_item h ord pr q = Inr h'
                 \<and> order_item_list h' ord = order_item_list h ord @ [h_next h]
                 \<and> h_next h \<notin> set (order_item_list h ord)
                 \<and> h_order_items h' (h_next h) = \<lparr>i_product = pr, i_quantity = q\<rparr>
                 \<and> (\<forall>x. x \<noteq> h_next h \<longrightarrow> h_order_items h' x = h_order_items h x)
                 \<and> h_products h' = h_products h)))"
proof (intro conjI impI ballI)
  show "order_inv (run_order_ops (fst (Order_init h c d now)) (snd (Order_init h c d now)) ops)
     (snd (Order_init h c d now))"
    by (rule run_order_ops_inv) (rule Order_init_inv)
next
  assume "order_inv h ord"
  then show "order_inv (run_order_op ord h (AddItem pr q)) ord"
    by (rule run_order_op_inv)
next
  assume "order_inv h ord"
  then show "order_inv (run_order_op ord h (RemoveItem pr)) ord"
    by (rule run_order_op_inv)
next
  fix item
  assume "order_inv h ord" and "item \<in> set (order_item_list h ord)"
    and "item_product_id h item = p_product_id (h_products h pr)"
  then show "if i_quantity (h_order_items h item) + q < 1
       then Order_add_item h ord pr q = Inl ValueError
       else (\<exists>h'. Order_add_item h ord pr q = Inr h'
              \<and> order_item_list h' ord = order_item_list h ord
              \<and> i_quantity (h_order_items h' item) = i_quantity (h_order_items h item) + q
              \<and> i_product (h_order_items h' item) = i_product (h_order_items h item)
              \<and> (\<forall>x. x \<noteq> item \<longrightarrow> h_order_items h' x = h_order_items h x)
              \<and> h_products h' = h_products h)"
    by (rule add_item_existing)
next
  assume "order_inv h ord"
    and "p_product_id (h_products h pr) \<notin> set (map (item_product_id h) (order_item_list h ord))"
  then show "\<exists>h'. Order_add_item h ord pr q = Inr h'
       \<and> order_item_list h' ord = order_item_list h ord @ [h_next h]
       \<and> h_next h \<notin> set (order_item_list h ord)
       \<and> h_order_items h' (h_next h) = \<lparr>i_product = pr, i_quantity = q\<rparr>
       \<and> (\<forall>x. x \<noteq> h_next h \<longrightarrow> h_order_items h' x = h_order_items h x)
       \<and> h_products h' = h_products h"
    by (rule add_item_new)
qed

theorem order_one_item_per_product_witness:
  "order_inv example_store 13
   \<and> order_item_list example_store 13 = [15, 16]
   \<and> Order_add_item example_store 13 7 (- 2) = Inl ValueError
   \<and> (\<exists>h'. Order_add_item example_store 13 7 3 = Inr h'
          \<and> order_item_list h' 13 = [15, 16] \<and> i_quantity (h_order_items h' 15) = 5)
   \<and> (\<exists>h'. Order_add_item example_store 13 9 4 = Inr h'
          \<and> order_item_list h' 13 = [15, 16, 20]
          \<and> h_order_items h' 20 = \<lparr>i_product = 9, i_quantity = 4\<rparr>)"
proof -
  have l: "order_item_list example_store 13 = [15, 16]"
    by (simp add: order_item_list_def example_store_eq del: One_nat_def)
  have n: "h_next example_store = 20"
    by (simp add: example_store_eq)
  have p: "item_product_id example_store 15 = 7" "item_product_id example_store 16 = 8"
    "p_product_id (h_products example_store 7) = 7"
    "p_product_id (h_products example_store 9) = 9"
    by (simp_all add: item_product_id_def example_store_eq example_product_table_def
        del: One_nat_def)
  have q: "i_quantity (h_order_items example_store 15) = 2"
    by (simp add: example_store_eq del: One_nat_def)
  have inv: "order_inv example_store 13"
    by (simp add: order_inv_def l n p)
  note t = order_one_item_per_product [of example_store 1 None "example_date 4" "[]" 13]
  show ?thesis
    using t [of 7 "- 2"] t [of 7 3] t [of 9 4] inv l n p q by auto
qed

section \<open>The descending stable sort and the slice\<close>

lemma sorted_reverse_mset: "mset (sorted_reverse f xs) = mset xs"
  by (simp add: sorted_reverse_def)

lemma sorted_reverse_set: "set (sorted_reverse f xs) = set xs"
  by (simp add: sorted_reverse_def)

lemma sorted_reverse_length: "length (sorted_reverse f xs) = length xs"
  by (simp add: sorted_reverse_def)

lemma sorted_reverse_sorted: "sorted_wrt (\<lambda>a b. f b \<le> f a) (sorted_reverse f xs)"
proof -
  have "sorted (map f (sort_key f (rev xs)))"
    by (rule sorted_sort_key)
  then have "sorted_wrt (\<lambda>a b. f a \<le> f b) (sort_key f (rev xs))"
    by (simp add: sorted_map)
  then show ?thesis
    by (simp add: sorted_reverse_def sorted_wrt_rev)
qed

lemma sorted_reverse_stable:
  "filter (\<lambda>x. f x = k) (sorted_reverse f xs) = filter (\<lambda>x. f x = k) xs"
proof -
  have "filter (\<lambda>x. f x = k) (sorted_reverse f xs)
          = rev (filter (\<lambda>x. f x = k) (sort_key f (rev xs)))"
    by (simp add: sorted_reverse_def rev_filter)
  also have "\<dots> = rev (filter (\<lambda>x. f x = k) (rev xs))"
    by (simp only: sort_key_stable)
  also have "\<dots> = filter (\<lambda>x. f x = k) xs"
    by (simp add: rev_filter)
  finally show ?thesis .
qed

lemma slice_to_take: "0 \<le> n \<Longrightarrow> slice_to xs n = take (nat n) xs"
  by (simp add: slice_to_def)

lemma sorted_wrt_take_drop:
  assumes "sorted_wrt P xs" and "x \<in> set (take n xs)" and "y \<in> set (drop n xs)"
  shows "P x y"
proof -
  have "sorted_wrt P (take n xs @ drop n xs)"
    using assms(1) by simp
  then show ?thesis
    using assms(2,3) unfolding sorted_wrt_append by blast
qed

section \<open>The clients with the most orders\<close>

lemma client_stat_of_fields:
  "cs_client (client_stat_of A h c) = c"
  "cs_order_count (client_stat_of A h c) = int (length (client_order_list h c))"
  "cs_total_spent (client_stat_of A h c)
     = f_sum A (map (Order_total_amount A h) (client_order_list h c))"
  by (simp_all add: client_stat_of_def client_order_list_def Client_get_total_spent_def)

text \<open>
  Claim C1. For a non-empty list of clients and a positive \<open>top_n\<close>, the result is sorted
  non-increasing by order count and has \<open>min top_n (number of clients)\<close> records. Each
  record is the one of a client of the list: its order count is the length of that client's
  order list and its total is what \<^verbatim>\<open>sum\<close> returns for the totals of those orders. The
  records of any one
  order count appear in the order of the input (they are a prefix of the input's records with
  that count). The result is the first \<open>top_n\<close> records of a rearrangement of all records:
  no record left out has more orders than a record of the result.
\<close>

theorem get_top_clients_by_orders_sorted_top:
  assumes "clients self \<noteq> []" and "0 < top_n"
  shows "sorted_wrt (\<lambda>a b. cs_order_count b \<le> cs_order_count a)
           (get_top_clients_by_orders A h self top_n)
     \<and> length (get_top_clients_by_orders A h self top_n)
         = min (nat top_n) (length (clients self))
     \<and> (\<forall>r \<in> set (get_top_clients_by_orders A h self top_n).
           cs_client r \<in> set (clients self)
           \<and> cs_order_count r = int (length (client_order_list h (cs_client r)))
           \<and> cs_total_spent r
               = f_sum A (map (Order_total_amount A h) (client_order_list h (cs_client r))))
     \<and> (\<forall>k. prefix
           (filter (\<lambda>r. cs_order_count r = k) (get_top_clients_by_orders A h self top_n))
           (filter (\<lambda>r. cs_order_count r = k) (map (client_stat_of A h) (clients self))))
     \<and> (\<exists>rest. mset (get_top_clients_by_orders A h self top_n @ rest)
                  = mset (map (client_stat_of A h) (clients self))
           \<and> (\<forall>x \<in> set (get_top_clients_by_orders A h self top_n). \<forall>y \<in> set rest.
                  cs_order_count y \<le> cs_order_count x))"
proof -
  define recs where "recs = map (client_stat_of A h) (clients self)"
  define srt where "srt = sorted_reverse cs_order_count recs"
  have res: "get_top_clients_by_orders A h self top_n = take (nat top_n) srt"
    using assms(2) by (simp add: get_top_clients_by_orders_def Let_def slice_to_take srt_def recs_def)
  have srt_sorted: "sorted_wrt (\<lambda>a b. cs_order_count b \<le> cs_order_count a) srt"
    unfolding srt_def by (rule sorted_reverse_sorted)
  have s: "sorted_wrt (\<lambda>a b. cs_order_count b \<le> cs_order_count a) (take (nat top_n) srt)"
    using srt_sorted by (rule sorted_wrt_take)
  have l: "length (take (nat top_n) srt) = min (nat top_n) (length (clients self))"
    by (simp add: srt_def recs_def sorted_reverse_length min.commute)
  have m: "\<forall>r \<in> set (take (nat top_n) srt).
      cs_client r \<in> set (clients self)
      \<and> cs_order_count r = int (length (client_order_list h (cs_client r)))
      \<and> cs_total_spent r
          = f_sum A (map (Order_total_amount A h) (client_order_list h (cs_client r)))"
  proof
    fix r assume "r \<in> set (take (nat top_n) srt)"
    then have "r \<in> set srt" by (rule in_set_takeD)
    then have "r \<in> set recs" by (simp add: srt_def sorted_reverse_set)
    then obtain c where "c \<in> set (clients self)" and "r = client_stat_of A h c"
      by (auto simp add: recs_def)
    then show "cs_client r \<in> set (clients self)
      \<and> cs_order_count r = int (length (client_order_list h (cs_client r)))
      \<and> cs_total_spent r
          = f_sum A (map (Order_total_amount A h) (client_order_list h (cs_client r)))"
      by (simp add: client_stat_of_fields)
  qed
  have p: "\<forall>k. prefix (filter (\<lambda>r. cs_order_count r = k) (take (nat top_n) srt))
                 (filter (\<lambda>r. cs_order_count r = k) recs)"
  proof
    fix k
    have "prefix (filter (\<lambda>r. cs_order_count r = k) (take (nat top_n) srt))
            (filter (\<lambda>r. cs_order_count r = k) srt)"
      by (rule filter_mono_prefix) (rule take_is_prefix)
    then show "prefix (filter (\<lambda>r. cs_order_count r = k) (take (nat top_n) srt))
            (filter (\<lambda>r. cs_order_count r = k) recs)"
      by (simp add: srt_def sorted_reverse_stable)
  qed
  have t: "\<exists>rest. mset (take (nat top_n) srt @ rest) = mset recs
         \<and> (\<forall>x \<in> set (take (nat top_n) srt). \<forall>y \<in> set rest.
                cs_order_count y \<le> cs_order_count x)"
  proof (intro exI conjI ballI)
    show "mset (take (nat top_n) srt @ drop (nat top_n) srt) = mset recs"
      by (simp add: srt_def sorted_reverse_mset)
  next
    fix x y
    assume "x \<in> set (take (nat top_n) srt)" and "y \<in> set (drop (nat top_n) srt)"
    with srt_sorted show "cs_order_count y \<le> cs_order_count x"
      by (rule sorted_wrt_take_drop)
  qed
  show ?thesis
    unfolding res using s l m p t by (simp add: recs_def)
qed

theorem get_top_clients_by_orders_sorted_top_witness:
  "clients example_analyzer \<noteq> [] \<and> (0::int) < 2
   \<and> get_top_clients_by_orders exact_arith example_store example_analyzer 2
       = [\<lparr>cs_client = 1, cs_order_count = 2, cs_total_spent = 650\<rparr>,
          \<lparr>cs_client = 3, cs_order_count = 1, cs_total_spent = 2500\<rparr>]
   \<and> length (get_top_clients_by_orders exact_arith example_store example_analyzer 2)
       = min (nat 2) (length (clients example_analyzer))"
proof -
  have c: "clients example_analyzer \<noteq> []"
    by (simp add: example_analyzer_def)
  have p: "(0::int) < 2"
    by simp
  have e: "get_top_clients_by_orders exact_arith example_store example_analyzer 2
       = [\<lparr>cs_client = 1, cs_order_count = 2, cs_total_spent = 650\<rparr>,
          \<lparr>cs_client = 3, cs_order_count = 1, cs_total_spent = 2500\<rparr>]"
    by (simp add: get_top_clients_by_orders_def example_analyzer_def example_client_stats
        sorted_reverse_def slice_to_def del: One_nat_def)
  show ?thesis
    using get_top_clients_by_orders_sorted_top [OF c p, of exact_arith example_store] c e by simp
qed

section \<open>Grouping loops compute folds\<close>

lemma group_step_map_of:
  "map_of (group_step key init upd d x) k
     = (if key x = k
        then Some (upd (case map_of d k of None \<Rightarrow> init x | Some v \<Rightarrow> v) x)
        else map_of d k)"
  by (auto simp add: group_step_def update_conv')

lemma group_fold_map_of:
  "map_of (foldl (group_step key init upd) d xs) k
     = (case filter (\<lambda>x. key x = k) xs of
          [] \<Rightarrow> map_of d k
        | y # ys \<Rightarrow>
            Some (foldl upd (case map_of d k of None \<Rightarrow> init y | Some v \<Rightarrow> v) (y # ys)))"
proof (induction xs arbitrary: d)
  case Nil
  show ?case by simp
next
  case (Cons x xs)
  show ?case
  proof (cases "key x = k")
    case True
    then show ?thesis
      by (simp add: Cons.IH group_step_map_of split: list.splits)
  next
    case False
    then show ?thesis
      by (simp add: Cons.IH group_step_map_of split: list.splits)
  qed
qed

lemma group_fold_distinct:
  "distinct (map fst d) \<Longrightarrow> distinct (map fst (foldl (group_step key init upd) d xs))"
  by (induction xs arbitrary: d) (simp_all add: group_step_def distinct_update)

lemma group_fold_keys:
  "fst ` set (foldl (group_step key init upd) d xs) = fst ` set d \<union> key ` set xs"
  by (induction xs arbitrary: d) (auto simp add: group_step_def dom_update)

lemma sales_item_step:
  "sales_items_loop A h (item # items) d
     = sales_items_loop A h items (group_step (item_product_id h) (sale_init h) (sale_add A h) d item)"
proof (cases "map_of d (item_product_id h item)")
  case None
  then show ?thesis
    by (simp add: dict_contains_def dict_setitem_def dict_getitem_def update_conv'
        group_step_def sale_init_def sale_add_def Let_def)
next
  case (Some s)
  then show ?thesis
    by (simp add: dict_contains_def dict_setitem_def dict_getitem_def update_conv'
        group_step_def sale_init_def sale_add_def Let_def)
qed

lemma sales_items_loop_fold:
  "sales_items_loop A h items d
     = Inr (foldl (group_step (item_product_id h) (sale_init h) (sale_add A h)) d items)"
proof (induction items arbitrary: d)
  case Nil
  show ?case by simp
next
  case (Cons item items)
  show ?case
    unfolding sales_item_step by (simp add: Cons.IH)
qed

lemma sales_orders_loop_fold:
  "sales_orders_loop A h ords d
     = Inr (foldl (group_step (item_product_id h) (sale_init h) (sale_add A h)) d
              (all_items h ords))"
  by (induction ords arbitrary: d)
    (simp_all add: sales_items_loop_fold all_items_def order_item_list_def)


section \<open>The products with the highest revenue\<close>





section \<open>The sales report\<close>

lemma get_top_products_by_sales_returns:
  "\<exists>tp. get_top_products_by_sales A h self n = Inr tp"
  by (simp add: get_top_products_by_sales_def sales_orders_loop_fold Let_def)

lemma list_length_in_float_range:
  assumes "n \<le> sys_maxsize"
  shows "\<bar>real n\<bar> < float_limit"
proof -
  have "real n \<le> real sys_maxsize"
    using assms by simp
  also have "\<dots> < 2 ^ 63"
    by (simp add: sys_maxsize_def)
  also have "(2::real) ^ 63 \<le> 2 ^ 970"
    by (rule power_increasing) simp_all
  also have "(2::real) ^ 970 \<le> float_limit"
  proof -
    have "(2::real) * 2 ^ 970 \<le> 2 ^ 1024"
      using power_increasing [of 971 1024 "2::real"] by simp
    then show ?thesis
      by (simp add: float_limit_def)
  qed
  finally show ?thesis
    by simp
qed

lemma generate_sales_report_no_zero_division:
  "generate_sales_report A h self \<noteq> Inl ZeroDivisionError"
proof -
  obtain tp where tp: "get_top_products_by_sales A h self 5 = Inr tp"
    using get_top_products_by_sales_returns by blast
  show ?thesis
    by (cases "orders self"; cases "clients self")
      (simp_all add: generate_sales_report_def float_truediv_int_def int_truediv_int_def tp
        Let_def)
qed

text \<open>
  Claim C5. For every input the report is not a ZeroDivisionError: each division is reached
  only with a non-zero divisor. For lists of lengths that Python lists can have, the report
  is returned. Its total revenue is the \<^verbatim>\<open>sum\<close> of the total amounts of the orders. The
  average order value is 0 when there are no orders and otherwise the float that \<^verbatim>\<open>/\<close>
  returns for total revenue divided by the number of orders. The average number of orders
  per client is 0 when there are no clients and otherwise the float that \<^verbatim>\<open>/\<close> returns for
  the number of orders divided by the number of clients.
\<close>

theorem generate_sales_report_totals:
  "generate_sales_report A h self \<noteq> Inl ZeroDivisionError
   \<and> (length (orders self) \<le> sys_maxsize \<and> length (clients self) \<le> sys_maxsize \<longrightarrow>
       (\<exists>r. generate_sales_report A h self = Inr r
          \<and> total_orders r = int (length (orders self))
          \<and> total_clients r = int (length (clients self))
          \<and> total_revenue r = f_sum A (map (Order_total_amount A h) (orders self))
          \<and> (total_orders r = 0 \<longrightarrow> avg_order_value r = 0)
          \<and> (total_orders r \<noteq> 0 \<longrightarrow>
               avg_order_value r
                 = f_div A (total_revenue r) (real_of_int (total_orders r)))
          \<and> (total_clients r = 0 \<longrightarrow> avg_orders_per_client r = 0)
          \<and> (total_clients r \<noteq> 0 \<longrightarrow>
               avg_orders_per_client r
                 = f_div A (real_of_int (total_orders r)) (real_of_int (total_clients r)))))"
proof (intro conjI impI)
  show "generate_sales_report A h self \<noteq> Inl ZeroDivisionError"
    by (rule generate_sales_report_no_zero_division)
next
  assume b: "length (orders self) \<le> sys_maxsize \<and> length (clients self) \<le> sys_maxsize"
  obtain tp where tp: "get_top_products_by_sales A h self 5 = Inr tp"
    using get_top_products_by_sales_returns by blast
  have o: "\<not> float_limit \<le> real (length (orders self))"
    using list_length_in_float_range [of "length (orders self)"] b by simp
  have q: "\<not> float_limit \<le> real (length (orders self)) / real (length (clients self))"
  proof (cases "clients self")
    case Nil
    then show ?thesis
      using o list_length_in_float_range [of 0] by (simp add: sys_maxsize_def)
  next
    case (Cons c cs)
    then have "1 \<le> real (length (clients self))"
      by simp
    then have "real (length (orders self)) * 1
        \<le> real (length (orders self)) * real (length (clients self))"
      by (intro mult_left_mono) simp_all
    then have "real (length (orders self)) / real (length (clients self))
        \<le> real (length (orders self))"
      using Cons by (simp add: divide_le_eq)
    with o show ?thesis
      by linarith
  qed
  show "\<exists>r. generate_sales_report A h self = Inr r
      \<and> total_orders r = int (length (orders self))
      \<and> total_clients r = int (length (clients self))
      \<and> total_revenue r = f_sum A (map (Order_total_amount A h) (orders self))
      \<and> (total_orders r = 0 \<longrightarrow> avg_order_value r = 0)
      \<and> (total_orders r \<noteq> 0 \<longrightarrow>
           avg_order_value r = f_div A (total_revenue r) (real_of_int (total_orders r)))
      \<and> (total_clients r = 0 \<longrightarrow> avg_orders_per_client r = 0)
      \<and> (total_clients r \<noteq> 0 \<longrightarrow>
           avg_orders_per_client r
             = f_div A (real_of_int (total_orders r)) (real_of_int (total_clients r)))"
    using o q
    by (cases "orders self"; cases "clients self")
      (simp_all add: generate_sales_report_def float_truediv_int_def int_truediv_int_def tp
        Let_def)
qed

theorem generate_sales_report_totals_witness:
  "length (orders example_analyzer) \<le> sys_maxsize
   \<and> length (clients example_analyzer) \<le> sys_maxsize
   \<and> (\<exists>r. generate_sales_report exact_arith example_store example_analyzer = Inr r
      \<and> total_orders r = 3 \<and> total_clients r = 3 \<and> total_revenue r = 3150
      \<and> avg_order_value r = 1050 \<and> avg_orders_per_client r = 1)
   \<and> (\<exists>r. generate_sales_report exact_arith example_store empty_analyzer = Inr r
      \<and> total_orders r = 0 \<and> total_clients r = 0 \<and> total_revenue r = 0
      \<and> avg_order_value r = 0 \<and> avg_orders_per_client r = 0)"
proof -
  have s: "f_sum exact_arith
      (map (Order_total_amount exact_arith example_store) (orders example_analyzer)) = 3150"
    by (simp add: example_analyzer_def example_order_totals) (simp add: exact_arith_def)
  have l: "length (orders example_analyzer) = 3" "length (clients example_analyzer) = 3"
    by (simp_all add: example_analyzer_def)
  have e: "orders empty_analyzer = []" "clients empty_analyzer = []"
    by (simp_all add: empty_analyzer_def)
  have z: "f_sum exact_arith [] = 0"
    and d: "f_div exact_arith 3150 3 = 1050" "f_div exact_arith 3 3 = 1"
    by (simp_all add: exact_arith_def)
  have m: "(3::nat) \<le> sys_maxsize" "(0::nat) \<le> sys_maxsize"
    by (simp_all add: sys_maxsize_def)
  show ?thesis
    using generate_sales_report_totals [of exact_arith example_store example_analyzer]
      generate_sales_report_totals [of exact_arith example_store empty_analyzer] s l e z d m
    by auto
qed

section \<open>Date strings and calendar dates\<close>

lemma digit_char_eq_iff: "digit_char a = digit_char b \<longleftrightarrow> a mod 10 = b mod 10"
proof -
  have d: "distinct ''0123456789''"
    by simp
  have l: "a mod 10 < length ''0123456789''" "b mod 10 < length ''0123456789''"
    by simp_all
  show ?thesis
    unfolding digit_char_def using nth_eq_iff_index_eq [OF d l] .
qed

lemma last_digit_step:
  fixes a b :: nat
  assumes "a div 10 = b div 10" and "a mod 10 = b mod 10"
  shows "a = b"
  using assms by (metis div_mult_mod_eq)

lemma four_digits_eq:
  fixes a b :: nat
  assumes "a < 10000" and "b < 10000"
    and d3: "a div 1000 mod 10 = b div 1000 mod 10"
    and d2: "a div 100 mod 10 = b div 100 mod 10"
    and d1: "a div 10 mod 10 = b div 10 mod 10"
    and d0: "a mod 10 = b mod 10"
  shows "a = b"
proof -
  have "a div 1000 < 10" and "b div 1000 < 10"
    using assms(1,2) by simp_all
  with d3 have e3: "a div 1000 = b div 1000"
    by simp
  have "a div 100 div 10 = b div 100 div 10"
    using e3 by (simp add: div_mult2_eq [symmetric])
  then have e2: "a div 100 = b div 100"
    using d2 by (rule last_digit_step)
  have "a div 10 div 10 = b div 10 div 10"
    using e2 by (simp add: div_mult2_eq [symmetric])
  then have "a div 10 = b div 10"
    using d1 by (rule last_digit_step)
  then show ?thesis
    using d0 by (rule last_digit_step)
qed

lemma two_digits_eq:
  fixes a b :: nat
  assumes "a < 100" and "b < 100"
    and d1: "a div 10 mod 10 = b div 10 mod 10"
    and d0: "a mod 10 = b mod 10"
  shows "a = b"
proof -
  have "a div 10 < 10" and "b div 10 < 10"
    using assms(1,2) by simp_all
  with d1 have "a div 10 = b div 10"
    by simp
  then show ?thesis
    using d0 by (rule last_digit_step)
qed

lemma strftime_ymd_eq_iff:
  assumes "date_in_range a" and "date_in_range b"
  shows "strftime_ymd a = strftime_ymd b \<longleftrightarrow> same_calendar_date a b"
proof
  assume "same_calendar_date a b"
  then show "strftime_ymd a = strftime_ymd b"
    by (simp add: same_calendar_date_def strftime_ymd_def)
next
  assume e: "strftime_ymd a = strftime_ymd b"
  have ya: "dt_year a < 10000" and yb: "dt_year b < 10000"
    and ma: "dt_month a < 100" and mb: "dt_month b < 100"
    and da: "dt_day a < 100" and db: "dt_day b < 100"
    using assms by (simp_all add: date_in_range_def)
  have y: "dt_year a div 1000 mod 10 = dt_year b div 1000 mod 10"
    "dt_year a div 100 mod 10 = dt_year b div 100 mod 10"
    "dt_year a div 10 mod 10 = dt_year b div 10 mod 10"
    "dt_year a mod 10 = dt_year b mod 10"
    using e by (simp_all add: strftime_ymd_def digit_char_eq_iff)
  have m: "dt_month a div 10 mod 10 = dt_month b div 10 mod 10"
    "dt_month a mod 10 = dt_month b mod 10"
    using e by (simp_all add: strftime_ymd_def digit_char_eq_iff)
  have d: "dt_day a div 10 mod 10 = dt_day b div 10 mod 10"
    "dt_day a mod 10 = dt_day b mod 10"
    using e by (simp_all add: strftime_ymd_def digit_char_eq_iff)
  have "dt_year a = dt_year b"
    using ya yb y by (rule four_digits_eq)
  moreover have "dt_month a = dt_month b"
    using ma mb m by (rule two_digits_eq)
  moreover have "dt_day a = dt_day b"
    using da db d by (rule two_digits_eq)
  ultimately show "same_calendar_date a b"
    by (simp add: same_calendar_date_def)
qed

section \<open>Orders per date\<close>

lemma orders_by_date_step:
  "orders_by_date_loop A h (ord # ords) d
     = orders_by_date_loop A h ords
         (group_step (order_date_str h) bucket_init (bucket_add A h) d ord)"
proof (cases "map_of d (order_date_str h ord)")
  case None
  then show ?thesis
    by (simp add: dict_contains_def dict_setitem_def dict_getitem_def update_conv'
        group_step_def bucket_init_def bucket_add_def order_date_str_def Let_def)
next
  case (Some b)
  then show ?thesis
    by (simp add: dict_contains_def dict_setitem_def dict_getitem_def update_conv'
        group_step_def bucket_init_def bucket_add_def order_date_str_def Let_def)
qed

lemma orders_by_date_loop_fold:
  "orders_by_date_loop A h ords d
     = Inr (foldl (group_step (order_date_str h) bucket_init (bucket_add A h)) d ords)"
proof (induction ords arbitrary: d)
  case Nil
  show ?case by simp
next
  case (Cons ord ords)
  show ?case
    unfolding orders_by_date_step by (simp add: Cons.IH)
qed

lemma bucket_add_fold:
  "b_count (foldl (bucket_add A h) b ords) = b_count b + int (length ords)"
  "b_revenue (foldl (bucket_add A h) b ords)
     = foldl (f_add A) (b_revenue b) (map (Order_total_amount A h) ords)"
  by (induction ords arbitrary: b) (simp_all add: bucket_add_def)

lemma orders_by_date_entry:
  assumes "d \<in> order_date_str h ` set ords"
  shows "\<exists>b. map_of (foldl (group_step (order_date_str h) bucket_init (bucket_add A h)) [] ords) d
               = Some b
           \<and> b_count b = int (length (orders_on h ords d))
           \<and> b_revenue b = foldl (f_add A) 0 (map (Order_total_amount A h) (orders_on h ords d))"
proof -
  from assms have "orders_on h ords d \<noteq> []"
    by (auto simp add: orders_on_def filter_empty_conv)
  then obtain y ys where f: "orders_on h ords d = y # ys"
    by (cases "orders_on h ords d") auto
  have "map_of (foldl (group_step (order_date_str h) bucket_init (bucket_add A h)) [] ords) d
      = Some (foldl (bucket_add A h) (bucket_init y) (y # ys))"
    unfolding group_fold_map_of using f by (simp add: orders_on_def)
  moreover have "b_count (foldl (bucket_add A h) (bucket_init y) (y # ys))
      = int (length (orders_on h ords d))"
    unfolding bucket_add_fold f by (simp add: bucket_init_def)
  moreover have "b_revenue (foldl (bucket_add A h) (bucket_init y) (y # ys))
      = foldl (f_add A) 0 (map (Order_total_amount A h) (orders_on h ords d))"
    unfolding bucket_add_fold f by (simp add: bucket_init_def)
  ultimately show ?thesis
    by blast
qed

lemma dynamics_rows_loop_rows:
  assumes "\<forall>d \<in> set ds. \<exists>b. map_of D d = Some b \<and> b_count b = cnt d \<and> b_revenue b = rv d"
  shows "dynamics_rows_loop D ds acc
     = Inr \<lparr>df_date = df_date acc @ ds,
            df_order_count = df_order_count acc @ map cnt ds,
            df_revenue = df_revenue acc @ map rv ds\<rparr>"
  using assms
proof (induction ds arbitrary: acc)
  case Nil
  show ?case by simp
next
  case (Cons d ds)
  from Cons.prems obtain b where b: "map_of D d = Some b" "b_count b = cnt d" "b_revenue b = rv d"
    by auto
  have rest: "\<forall>d \<in> set ds. \<exists>b. map_of D d = Some b \<and> b_count b = cnt d \<and> b_revenue b = rv d"
    using Cons.prems by simp
  show ?case
    by (simp add: dict_getitem_def b Cons.IH [OF rest])
qed

lemma indicator_sum_list:
  "distinct ks \<Longrightarrow> sum_list (map (\<lambda>k. if a = k then (1::int) else 0) ks)
     = (if a \<in> set ks then 1 else 0)"
  by (induction ks) auto

lemma group_sizes_sum:
  assumes "distinct ks" and "key ` set xs \<subseteq> set ks"
  shows "sum_list (map (\<lambda>k. int (length (filter (\<lambda>x. key x = k) xs))) ks) = int (length xs)"
  using assms(2)
proof (induction xs)
  case Nil
  show ?case by simp
next
  case (Cons x xs)
  have "sum_list (map (\<lambda>k. int (length (filter (\<lambda>x. key x = k) (x # xs)))) ks)
      = sum_list (map (\<lambda>k. (if key x = k then 1 else 0)
                              + int (length (filter (\<lambda>x. key x = k) xs))) ks)"
    by (rule arg_cong [where f = sum_list]) (rule map_cong, simp_all)
  also have "\<dots> = sum_list (map (\<lambda>k. if key x = k then 1 else 0) ks)
      + sum_list (map (\<lambda>k. int (length (filter (\<lambda>x. key x = k) xs))) ks)"
    by (rule sum_list_addf)
  also have "\<dots> = 1 + int (length xs)"
    using Cons assms(1) by (simp add: indicator_sum_list)
  finally show ?case by simp
qed

lemma recursive_date_sort_sort: "recursive_date_sort dates = sort dates"
  using properties_for_sort [OF recursive_date_sort_mset recursive_date_sort_sorted] by simp

lemma recursive_date_sort_distinct:
  "distinct dates \<Longrightarrow> distinct (recursive_date_sort dates)"
  using recursive_date_sort_mset [of dates] by (metis mset_eq_imp_distinct_iff)

text \<open>
  Claim C6. The function returns (it raises nothing) three columns of one length. The dates
  are strictly increasing as strings, and they are the date strings of the orders. For each
  date, the count is the number of orders with that date string and the revenue is the
  float sum of their total amounts, added up from 0.0 in the order of the input; the counts
  add up to the number of orders. When the dates of the
  orders are in the range of \<^verbatim>\<open>datetime\<close>, the orders with the date string of an order are
  the orders on the same calendar date.
\<close>

theorem get_orders_dynamics_buckets:
  "\<exists>df. get_orders_dynamics A h self = Inr df
     \<and> sorted_wrt (<) (df_date df)
     \<and> set (df_date df) = order_date_str h ` set (orders self)
     \<and> df_order_count df
         = map (\<lambda>d. int (length (orders_on h (orders self) d))) (df_date df)
     \<and> df_revenue df
         = map (\<lambda>d. foldl (f_add A) 0
                       (map (Order_total_amount A h) (orders_on h (orders self) d)))
             (df_date df)
     \<and> sum_list (df_order_count df) = int (length (orders self))
     \<and> ((\<forall>ord \<in> set (orders self). date_in_range (o_order_date (h_orders h ord))) \<longrightarrow>
          (\<forall>ord \<in> set (orders self).
             orders_on h (orders self) (order_date_str h ord)
               = filter (\<lambda>ord'. same_calendar_date (o_order_date (h_orders h ord'))
                                  (o_order_date (h_orders h ord)))
                   (orders self)))"
proof -
  define D where
    "D = foldl (group_step (order_date_str h) bucket_init (bucket_add A h)) [] (orders self)"
  define ks where "ks = recursive_date_sort (dict_keys D)"
  define cnt where "cnt = (\<lambda>d. int (length (orders_on h (orders self) d)))"
  define rv where
    "rv = (\<lambda>d. foldl (f_add A) 0 (map (Order_total_amount A h) (orders_on h (orders self) d)))"
  define df where "df = \<lparr>df_date = ks, df_order_count = map cnt ks, df_revenue = map rv ks\<rparr>"
  have dk: "distinct (dict_keys D)"
    unfolding D_def dict_keys_def by (rule group_fold_distinct) simp
  have sk: "set (dict_keys D) = order_date_str h ` set (orders self)"
    unfolding D_def dict_keys_def set_map group_fold_keys by simp
  have set_ks: "set ks = order_date_str h ` set (orders self)"
    unfolding ks_def recursive_date_sort_set sk ..
  have dist_ks: "distinct ks"
    unfolding ks_def using dk by (rule recursive_date_sort_distinct)
  have strict: "sorted_wrt (<) ks"
    unfolding strict_sorted_iff ks_def
    using recursive_date_sort_sorted dist_ks [unfolded ks_def] by blast
  have entries: "\<forall>d \<in> set ks. \<exists>b. map_of D d = Some b \<and> b_count b = cnt d \<and> b_revenue b = rv d"
    unfolding set_ks D_def cnt_def rv_def using orders_by_date_entry by blast
  have res: "get_orders_dynamics A h self = Inr df"
    unfolding get_orders_dynamics_def orders_by_date_loop_fold
    using dynamics_rows_loop_rows [OF entries, of "\<lparr>df_date = [], df_order_count = [], df_revenue = []\<rparr>"]
    by (simp add: Let_def D_def [symmetric] ks_def [symmetric] df_def)
  have total: "sum_list (map cnt ks) = int (length (orders self))"
    unfolding cnt_def orders_on_def
    by (rule group_sizes_sum [OF dist_ks]) (simp add: set_ks)
  have cal: "(\<forall>ord \<in> set (orders self). date_in_range (o_order_date (h_orders h ord))) \<longrightarrow>
      (\<forall>ord \<in> set (orders self).
         orders_on h (orders self) (order_date_str h ord)
           = filter (\<lambda>ord'. same_calendar_date (o_order_date (h_orders h ord'))
                              (o_order_date (h_orders h ord)))
               (orders self))"
  proof (intro impI ballI)
    fix ord
    assume r: "\<forall>ord \<in> set (orders self). date_in_range (o_order_date (h_orders h ord))"
      and m: "ord \<in> set (orders self)"
    show "orders_on h (orders self) (order_date_str h ord)
        = filter (\<lambda>ord'. same_calendar_date (o_order_date (h_orders h ord'))
                           (o_order_date (h_orders h ord)))
            (orders self)"
      unfolding orders_on_def order_date_str_def
    proof (rule filter_cong [OF refl])
      fix x assume "x \<in> set (orders self)"
      with r m show "(strftime_ymd (o_order_date (h_orders h x))
            = strftime_ymd (o_order_date (h_orders h ord)))
          = same_calendar_date (o_order_date (h_orders h x)) (o_order_date (h_orders h ord))"
        by (simp add: strftime_ymd_eq_iff)
    qed
  qed
  have "get_orders_dynamics A h self = Inr df
     \<and> sorted_wrt (<) (df_date df)
     \<and> set (df_date df) = order_date_str h ` set (orders self)
     \<and> df_order_count df = map cnt (df_date df)
     \<and> df_revenue df = map rv (df_date df)
     \<and> sum_list (df_order_count df) = int (length (orders self))"
    using res strict set_ks total by (simp add: df_def)
  then show ?thesis
    using cal unfolding cnt_def rv_def by blast
qed

theorem get_orders_dynamics_buckets_witness:
  "list_all (\<lambda>ord. date_in_range (o_order_date (h_orders example_store ord)))
     (orders example_analyzer)
   \<and> get_orders_dynamics exact_arith example_store example_analyzer
       = Inr \<lparr>df_date = [''2023-01-01'', ''2023-01-02'', ''2023-01-03''],
              df_order_count = [1, 1, 1],
              df_revenue = [550, 2500, 100]\<rparr>
   \<and> orders_on example_store (orders example_analyzer) ''2023-01-01'' = [13]
   \<and> filter (\<lambda>ord. same_calendar_date (o_order_date (h_orders example_store ord))
                       (o_order_date (h_orders example_store 13)))
        (orders example_analyzer) = [13]"
proof -
  have s: "order_date_str example_store 10 = ''2023-01-03''"
    "order_date_str example_store 13 = ''2023-01-01''"
    "order_date_str example_store 17 = ''2023-01-02''"
    by (simp_all add: order_date_str_def example_order_dates strftime_ymd_def example_date_def
        digit_char_def)
  have r: "list_all (\<lambda>ord. date_in_range (o_order_date (h_orders example_store ord)))
     (orders example_analyzer)"
    by (simp add: example_analyzer_def example_order_dates date_in_range_def example_date_def)
  have o: "orders_on example_store (orders example_analyzer) ''2023-01-01'' = [13]"
    by (simp add: orders_on_def example_analyzer_def s)
  have c: "filter (\<lambda>ord. same_calendar_date (o_order_date (h_orders example_store ord))
                       (o_order_date (h_orders example_store 13)))
        (orders example_analyzer) = [13]"
    by (simp add: example_analyzer_def example_order_dates same_calendar_date_def
        example_date_def)
  have e: "get_orders_dynamics exact_arith example_store example_analyzer
       = Inr \<lparr>df_date = [''2023-01-01'', ''2023-01-02'', ''2023-01-03''],
              df_order_count = [1, 1, 1],
              df_revenue = [550, 2500, 100]\<rparr>"
    by (simp add: get_orders_dynamics_def orders_by_date_loop_fold example_analyzer_def
        group_step_def s bucket_init_def bucket_add_def example_order_totals dict_keys_def
        recursive_date_sort_sort dict_getitem_def)
      (simp add: exact_arith_def)
  show ?thesis
    using get_orders_dynamics_buckets [of exact_arith example_store example_analyzer] r o c e by simp
qed

end
